theory Spec2Isabelle
  imports Main
begin

section \<open>Strings as the script uses them\<close>

text \<open>
  The script \<open>cli.mjs\<close> works on JavaScript strings. They are modelled as \<open>string\<close>,
  a list of 8-bit characters read as code points below 256. The helpers below are the
  string methods and the regular expressions the script calls, each written out.
\<close>

definition dquote :: char where
  "dquote = CHR 0x22"

definition squote :: char where
  "squote = CHR 0x27"

definition is_quote :: "char \<Rightarrow> bool" where
  \<comment> \<open>the class \<open>["']\<close>\<close>
  "is_quote c = (c = dquote \<or> c = squote)"

definition not_quote :: "char \<Rightarrow> bool" where
  \<comment> \<open>the class \<open>[^"']\<close>\<close>
  "not_quote c = (\<not> is_quote c)"

definition is_space :: "char \<Rightarrow> bool" where
  \<comment> \<open>\<open>\s\<close>, and what \<open>trim\<close> strips: tab, LF, VT, FF, CR, space, no-break space\<close>
  "is_space c = (c \<in> set [CHR 0x09, CHR 0x0A, CHR 0x0B, CHR 0x0C, CHR 0x0D, CHR 0x20, CHR 0xA0])"

definition is_name_char :: "char \<Rightarrow> bool" where
  \<comment> \<open>the class \<open>[a-z0-9-]\<close> under the flag \<open>i\<close>\<close>
  "is_name_char c =
     (c \<in> set ''abcdefghijklmnopqrstuvwxyzABCDEFGHIJKLMNOPQRSTUVWXYZ0123456789-'')"

definition lower_char :: "char \<Rightarrow> char" where
  \<comment> \<open>\<open>toLowerCase\<close> on one character: A-Z, and the Latin-1 capitals except the
      multiplication sign\<close>
  "lower_char c =
     (let n = (of_char c :: nat)
      in if (65 \<le> n \<and> n \<le> 90) \<or> (192 \<le> n \<and> n \<le> 222 \<and> n \<noteq> 215)
         then char_of (n + 32) else c)"

definition toLowerCase :: "string \<Rightarrow> string" where
  "toLowerCase s = map lower_char s"

definition trim :: "string \<Rightarrow> string" where
  "trim s = rev (dropWhile is_space (rev (dropWhile is_space s)))"

definition startsWith :: "string \<Rightarrow> string \<Rightarrow> bool" where
  \<comment> \<open>\<open>s.startsWith(p)\<close>, and a regular expression \<open>/^p/\<close> for a literal \<open>p\<close>\<close>
  "startsWith p s = (take (length p) s = p)"

definition startsWith_ci :: "string \<Rightarrow> string \<Rightarrow> bool" where
  \<comment> \<open>\<open>/^p/i\<close> for a literal lower-case \<open>p\<close>\<close>
  "startsWith_ci p s = (toLowerCase (take (length p) s) = p)"

definition endsWith :: "string \<Rightarrow> string \<Rightarrow> bool" where
  "endsWith p s = (length p \<le> length s \<and> drop (length s - length p) s = p)"

fun str_includes :: "string \<Rightarrow> string \<Rightarrow> bool" where
  \<comment> \<open>\<open>s\<close> contains \<open>p\<close>: the attribute selector \<open>[a*="p"]\<close>\<close>
  "str_includes p [] = (p = [])"
| "str_includes p (c # cs) = (startsWith p (c # cs) \<or> str_includes p cs)"

fun split_on :: "char \<Rightarrow> string \<Rightarrow> string list" where
  \<comment> \<open>\<open>s.split(",")\<close>: always at least one piece\<close>
  "split_on d [] = [[]]"
| "split_on d (c # cs) =
     (if c = d then [] # split_on d cs
      else (case split_on d cs of
              [] \<Rightarrow> [[c]]
            | p # ps \<Rightarrow> (c # p) # ps))"

function split_runs :: "(char \<Rightarrow> bool) \<Rightarrow> string \<Rightarrow> string list" where
  \<comment> \<open>the pieces of \<open>s\<close> between maximal runs of separator characters; a
      separator at either end gives an empty piece there\<close>
  "split_runs sep s =
     (case dropWhile (\<lambda>c. \<not> sep c) s of
        [] \<Rightarrow> [takeWhile (\<lambda>c. \<not> sep c) s]
      | c # r \<Rightarrow> takeWhile (\<lambda>c. \<not> sep c) s # split_runs sep (dropWhile sep r))"
  by pat_completeness auto
termination
proof (relation "measure (\<lambda>(sep, s). length s)")
  show "wf (measure (\<lambda>(sep :: char \<Rightarrow> bool, s :: string). length s))" by simp
next
  fix sep :: "char \<Rightarrow> bool" and s :: string and c r
  assume a: "dropWhile (\<lambda>c. \<not> sep c) s = c # r"
  have "length (dropWhile sep r) \<le> length r"
    by (rule length_dropWhile_le)
  moreover have "length (c # r) \<le> length s"
    unfolding a [symmetric] by (rule length_dropWhile_le)
  ultimately show "((sep, dropWhile sep r), (sep, s)) \<in> measure (\<lambda>(sep, s). length s)"
    by simp
qed

definition split_ws :: "string \<Rightarrow> string list" where
  \<comment> \<open>\<open>s.split(/\s+/)\<close>\<close>
  "split_ws s = split_runs is_space s"

fun join :: "string \<Rightarrow> string list \<Rightarrow> string" where
  \<comment> \<open>\<open>parts.join(sep)\<close>\<close>
  "join sep [] = []"
| "join sep [p] = p"
| "join sep (p # q # ps) = p @ sep @ join sep (q # ps)"

definition uniques :: "string list \<Rightarrow> string list" where
  \<comment> \<open>\<open>[...new Set(arr)].filter(Boolean)\<close>: first occurrences, in order, without the
      empty string\<close>
  "uniques arr = filter (\<lambda>s. s \<noteq> []) (rev (remdups (rev arr)))"

definition csv_list :: "string \<Rightarrow> string list" where
  \<comment> \<open>\<open>s.split(",").map(s=>s.trim()).filter(Boolean)\<close>, used for the safelist and
      for the viewports\<close>
  "csv_list s = filter (\<lambda>p. p \<noteq> []) (map trim (split_on (CHR '','') s))"

section \<open>Scanning with a regular expression\<close>

text \<open>
  \<open>content.matchAll(re)\<close> with the flag \<open>g\<close> tries the expression at each position
  from left to right and resumes after the end of each match. A matcher takes the text
  at a position and returns what it yields for the match together with the text after
  the match. None of the four expressions of the script matches the empty string, so
  the guard on the length never takes its other branch.
\<close>

function scan :: "(string \<Rightarrow> ('a \<times> string) option) \<Rightarrow> string \<Rightarrow> 'a list" where
  "scan m [] = []"
| "scan m (c # cs) =
     (case m (c # cs) of
        None \<Rightarrow> scan m cs
      | Some (t, rest) \<Rightarrow>
          if length rest \<le> length cs then t # scan m rest else scan m cs)"
  by pat_completeness auto
termination
  by (relation "measure (\<lambda>(m, s). length s)") auto

definition match_quoted :: "string \<Rightarrow> string \<Rightarrow> (string \<times> string) option" where
  \<comment> \<open>\<open>/key["']([^"']+)["']/\<close> at the start of \<open>s\<close>: group 1 and the rest\<close>
  "match_quoted key s =
     (if \<not> startsWith key s then None
      else (case drop (length key) s of
              [] \<Rightarrow> None
            | q # s1 \<Rightarrow>
                if \<not> is_quote q then None
                else (let v = takeWhile not_quote s1
                      in if v = [] then None
                         else (case dropWhile not_quote s1 of
                                 [] \<Rightarrow> None
                               | q2 # s2 \<Rightarrow> Some (v, s2)))))"

definition match_tag :: "string \<Rightarrow> (string \<times> string) option" where
  \<comment> \<open>\<open>/<\/?([a-z0-9-]+)/i\<close> at the start of \<open>s\<close>: group 1 and the rest\<close>
  "match_tag s =
     (case s of
        [] \<Rightarrow> None
      | c # s1 \<Rightarrow>
          if c \<noteq> CHR ''<'' then None
          else (let s2 = (case s1 of [] \<Rightarrow> [] | d # r \<Rightarrow> if d = CHR ''/'' then r else s1);
                    name = takeWhile is_name_char s2
                in if name = [] then None
                   else Some (name, dropWhile is_name_char s2)))"

definition match_data :: "string \<Rightarrow> (string \<times> string) option" where
  \<comment> \<open>\<open>/\sdata-[a-z0-9-]+(?:=["'][^"']*["'])?/i\<close> at the start of \<open>s\<close>: the whole
      match (\<open>m[0]\<close>) and the rest. The optional group is taken when \<open>=\<close>, a quote,
      and later a closing quote follow the name; otherwise the match ends with the name.\<close>
  "match_data s =
     (case s of
        [] \<Rightarrow> None
      | w # s1 \<Rightarrow>
          if \<not> is_space w then None
          else if \<not> startsWith_ci ''data-'' s1 then None
          else (let s2 = drop 5 s1;
                    name = takeWhile is_name_char s2;
                    s3 = dropWhile is_name_char s2;
                    bare = w # take 5 s1 @ name
                in if name = [] then None
                   else (case s3 of
                           e # q # s4 \<Rightarrow>
                             if e = CHR ''='' \<and> is_quote q
                             then (case dropWhile not_quote s4 of
                                     [] \<Rightarrow> Some (bare, s3)
                                   | q2 # s5 \<Rightarrow>
                                       Some (bare @ [e, q] @ takeWhile not_quote s4 @ [q2], s5))
                             else Some (bare, s3)
                         | _ \<Rightarrow> Some (bare, s3))))"

section \<open>The token extractor handed to the pruner\<close>

definition class_tokens :: "string \<Rightarrow> string list" where
  "class_tokens content = concat (map split_ws (scan (match_quoted ''class='') content))"

definition id_tokens :: "string \<Rightarrow> string list" where
  "id_tokens content = scan (match_quoted ''id='') content"

definition tag_tokens :: "string \<Rightarrow> string list" where
  "tag_tokens content = scan match_tag content"

definition data_tokens :: "string \<Rightarrow> string list" where
  \<comment> \<open>\<open>.map(m=>m[0].trim())\<close>: the whole match, trimmed\<close>
  "data_tokens content = map trim (scan match_data content)"

definition defaultExtractor :: "string \<Rightarrow> string list" where
  "defaultExtractor content =
     uniques (class_tokens content @ id_tokens content @ tag_tokens content @ data_tokens content)"

section \<open>Command line\<close>

text \<open>
  \<open>parseArgs\<close> reads \<open>process.argv\<close> from index 2. A word that starts with \<open>--\<close> is a
  key; it takes the next word as its value when there is one and it does not start with
  \<open>--\<close>, and the value \<open>true\<close> otherwise. Other words are skipped.
\<close>

datatype argval = ArgTrue | ArgStr string

fun parseArgs_from :: "string list \<Rightarrow> (string \<rightharpoonup> argval) \<Rightarrow> (string \<rightharpoonup> argval)" where
  "parseArgs_from [] args = args"
| "parseArgs_from [k] args =
     (if \<not> startsWith ''--'' k then args else args(drop 2 k \<mapsto> ArgTrue))"
| "parseArgs_from (k # v # rest) args =
     (if \<not> startsWith ''--'' k then parseArgs_from (v # rest) args
      else if v \<noteq> [] \<and> \<not> startsWith ''--'' v
           then parseArgs_from rest (args(drop 2 k \<mapsto> ArgStr v))
           else parseArgs_from (v # rest) (args(drop 2 k \<mapsto> ArgTrue)))"

definition parseArgs :: "string list \<Rightarrow> (string \<rightharpoonup> argval)" where
  "parseArgs argv = parseArgs_from (drop 2 argv) Map.empty"

fun truthy :: "argval option \<Rightarrow> bool" where
  \<comment> \<open>\<open>!!args[key]\<close>\<close>
  "truthy None = False"
| "truthy (Some ArgTrue) = True"
| "truthy (Some (ArgStr v)) = (v \<noteq> [])"

definition keepFontLinks_of :: "string list \<Rightarrow> bool" where
  \<comment> \<open>\<open>const keepFontLinks = !!args["keep-font-links"]\<close>\<close>
  "keepFontLinks_of argv = truthy (parseArgs argv ''keep-font-links'')"

definition doVisual_of :: "string list \<Rightarrow> bool" where
  \<comment> \<open>\<open>const doVisual = !args["no-visual"]\<close>\<close>
  "doVisual_of argv = (\<not> truthy (parseArgs argv ''no-visual''))"

text \<open>
  The constants the script computes from the arguments. The options that take a value
  are modelled with the value given: \<open>inputPath\<close> and \<open>pageUrl\<close> are \<open>None\<close> for
  \<open>null\<close> (the script turns an empty string into \<open>null\<close>).
\<close>

record config =
  inputPath :: "string option"
  pageUrl :: "string option"
  outPath :: string
  doVisual :: bool
  keepFontLinks :: bool
  vpsArg :: string
  safelistExtra :: "string list"
  baseUrl :: string

section \<open>The document\<close>

text \<open>
  The document is the tree JSDOM parses: elements with a lower-case tag name, attributes
  and children, and text. Parsing and serialising are JSDOM's; the script reads and
  changes the tree between the two. Every document JSDOM parses has a head and a body.
\<close>

datatype node = Element string "(string \<times> string) list" "node list" | TextNode string

record document =
  doc_head :: "node list"
  doc_body :: "node list"

fun tagName :: "node \<Rightarrow> string" where
  "tagName (Element t as cs) = t"
| "tagName (TextNode s) = []"

fun getAttribute :: "node \<Rightarrow> string \<Rightarrow> string option" where
  "getAttribute (Element t as cs) a = map_of as a"
| "getAttribute (TextNode s) a = None"

fun textContent :: "node \<Rightarrow> string" where
  "textContent (TextNode s) = s"
| "textContent (Element t as cs) = concat (map textContent cs)"

fun elements_of :: "node \<Rightarrow> node list" where
  \<comment> \<open>an element and the elements below it, in document order\<close>
  "elements_of (TextNode s) = []"
| "elements_of (Element t as cs) = Element t as cs # concat (map elements_of cs)"

definition elements_in :: "node list \<Rightarrow> node list" where
  "elements_in ns = concat (map elements_of ns)"

definition querySelectorAll :: "(node \<Rightarrow> bool) \<Rightarrow> document \<Rightarrow> node list" where
  \<comment> \<open>the matching elements in document order; the selectors of the script match
      neither \<open>html\<close> nor \<open>head\<close> nor \<open>body\<close>\<close>
  "querySelectorAll sel doc = filter sel (elements_in (doc_head doc @ doc_body doc))"

fun remove_in :: "(node \<Rightarrow> bool) \<Rightarrow> node \<Rightarrow> node list" where
  \<comment> \<open>the node after \<open>el.remove()\<close> on every matching element in it\<close>
  "remove_in sel (TextNode s) = [TextNode s]"
| "remove_in sel (Element t as cs) =
     (if sel (Element t as cs) then []
      else [Element t as (concat (map (remove_in sel) cs))])"

definition remove_all :: "(node \<Rightarrow> bool) \<Rightarrow> document \<Rightarrow> document" where
  \<comment> \<open>\<open>doc.querySelectorAll(sel).forEach(el => el.remove())\<close>\<close>
  "remove_all sel doc =
     doc\<lparr>doc_head := concat (map (remove_in sel) (doc_head doc)),
         doc_body := concat (map (remove_in sel) (doc_body doc))\<rparr>"

subsection \<open>The selectors of the script\<close>

text \<open>
  Each selector is a predicate on a node. Tag and attribute names are lower case, as the
  parser leaves them. In an HTML document the value of \<open>rel\<close> is matched without regard
  to the case of the ASCII letters, so \<open>rel="Stylesheet"\<close> is selected like
  \<open>rel="stylesheet"\<close>; the values of \<open>href\<close> and \<open>name\<close> are matched as written.
\<close>

definition ascii_lower_char :: "char \<Rightarrow> char" where
  "ascii_lower_char c =
     (let n = (of_char c :: nat)
      in if 65 \<le> n \<and> n \<le> 90 then char_of (n + 32) else c)"

definition ascii_lower :: "string \<Rightarrow> string" where
  "ascii_lower s = map ascii_lower_char s"

definition is_css_space :: "char \<Rightarrow> bool" where
  "is_css_space c = (c \<in> set [CHR 0x09, CHR 0x0A, CHR 0x0C, CHR 0x0D, CHR 0x20])"

definition rel_has :: "string \<Rightarrow> node \<Rightarrow> bool" where
  \<comment> \<open>\<open>[rel~="w"]\<close>: \<open>w\<close> is one of the white-space separated words of \<open>rel\<close>,
      whatever the case of the ASCII letters\<close>
  "rel_has w n =
     (case getAttribute n ''rel'' of
        None \<Rightarrow> False
      | Some r \<Rightarrow> ascii_lower w \<in> set (split_runs is_css_space (ascii_lower r)))"

definition rel_is :: "string \<Rightarrow> node \<Rightarrow> bool" where
  \<comment> \<open>\<open>[rel="w"]\<close>: \<open>rel\<close> is \<open>w\<close>, whatever the case of the ASCII letters\<close>
  "rel_is w n =
     (case getAttribute n ''rel'' of
        None \<Rightarrow> False
      | Some r \<Rightarrow> ascii_lower r = ascii_lower w)"

definition href_has :: "string \<Rightarrow> node \<Rightarrow> bool" where
  \<comment> \<open>\<open>[href*="p"]\<close>\<close>
  "href_has p n =
     (case getAttribute n ''href'' of
        None \<Rightarrow> False
      | Some h \<Rightarrow> str_includes p h)"

definition sel_stylesheet :: "node \<Rightarrow> bool" where
  \<comment> \<open>\<open>link[rel~="stylesheet"]\<close>\<close>
  "sel_stylesheet n = (tagName n = ''link'' \<and> rel_has ''stylesheet'' n)"

definition sel_font_link :: "node \<Rightarrow> bool" where
  \<comment> \<open>\<open>link[rel~="stylesheet"][href*="fonts.googleapis"]\<close>\<close>
  "sel_font_link n = (sel_stylesheet n \<and> href_has ''fonts.googleapis'' n)"

definition sel_other_link :: "node \<Rightarrow> bool" where
  \<comment> \<open>\<open>link[rel~="stylesheet"]:not([href*="fonts.googleapis"])\<close>\<close>
  "sel_other_link n = (sel_stylesheet n \<and> \<not> href_has ''fonts.googleapis'' n)"

definition sel_script :: "node \<Rightarrow> bool" where
  "sel_script n = (tagName n = ''script'')"

definition sel_hint :: "node \<Rightarrow> bool" where
  \<comment> \<open>\<open>link[rel="preload"], link[rel="prefetch"], link[rel="dns-prefetch"]\<close>\<close>
  "sel_hint n =
     (tagName n = ''link'' \<and>
      (rel_is ''preload'' n \<or> rel_is ''prefetch'' n \<or> rel_is ''dns-prefetch'' n))"

definition sel_script_or_hint :: "node \<Rightarrow> bool" where
  "sel_script_or_hint n = (sel_script n \<or> sel_hint n)"

definition sel_style :: "node \<Rightarrow> bool" where
  "sel_style n = (tagName n = ''style'')"

definition sel_meta_charset :: "node \<Rightarrow> bool" where
  \<comment> \<open>\<open>meta[charset]\<close>\<close>
  "sel_meta_charset n = (tagName n = ''meta'' \<and> getAttribute n ''charset'' \<noteq> None)"

definition sel_meta_viewport :: "node \<Rightarrow> bool" where
  \<comment> \<open>\<open>meta[name="viewport"]\<close>\<close>
  "sel_meta_viewport n = (tagName n = ''meta'' \<and> getAttribute n ''name'' = Some ''viewport'')"

section \<open>Collaborators, errors and the world\<close>

text \<open>
  The libraries the script calls are parameters of the model. A call that can throw or
  reject returns an option, \<open>None\<close> for the exception.
\<close>

datatype regexp = RegExp string

record safelist =
  standard :: "string list"
  deep :: "regexp list"
  greedy :: "regexp list"

record collab =
  parse_html :: "string \<Rightarrow> document"
  serialize :: "document \<Rightarrow> string"
  fetch_text :: "string \<Rightarrow> string option"
  url_protocol :: "string \<Rightarrow> string option"
  url_href :: "string \<Rightarrow> string \<Rightarrow> string option"
  path_dirname :: "string \<Rightarrow> string"
  path_resolve2 :: "string \<Rightarrow> string \<Rightarrow> string"
  path_resolve :: "string \<Rightarrow> string"
  can_write :: "string \<Rightarrow> bool"
  purge :: "string \<Rightarrow> string \<Rightarrow> safelist \<Rightarrow> (string \<Rightarrow> string list) \<Rightarrow> string option option"
  minify :: "string \<Rightarrow> string option"
  deps_available :: bool
  launch_ok :: bool
  screenshot :: "string \<Rightarrow> string \<Rightarrow> string option"
  pixelmatch :: "string \<Rightarrow> string \<Rightarrow> (nat \<times> string) option"
  regexp_valid :: "string \<Rightarrow> bool"
  regexp_matches :: "string \<Rightarrow> string \<Rightarrow> bool"

text \<open>
  \<^item> \<open>parse_html\<close>, \<open>serialize\<close>: \<open>new JSDOM(html)\<close> and \<open>dom.serialize()\<close>;
  \<^item> \<open>fetch_text url\<close>: \<open>(await fetch(url)).text()\<close>, \<open>None\<close> when the request rejects;
  \<^item> \<open>url_protocol base\<close>: \<open>new URL(base).protocol\<close>; \<open>url_href u base\<close>:
    \<open>new URL(u, base).href\<close>; both throw on an invalid URL;
  \<^item> \<open>path_dirname\<close>, \<open>path_resolve2 dir file\<close>, \<open>path_resolve p\<close>: \<open>path.dirname\<close> and
    \<open>path.resolve\<close> with two and with one argument. Files are keyed by their resolved
    path, which is also how \<open>fs\<close> reads a relative path;
  \<^item> \<open>can_write\<close>: whether \<open>fs.writeFile\<close> to a resolved path succeeds;
  \<^item> \<open>purge html css safelist extractor\<close>: PurgeCSS, \<open>Some None\<close> when \<open>res[0]?.css\<close>
    is undefined; \<open>minify\<close>: postcss with cssnano;
  \<^item> \<open>deps_available\<close>: the dynamic imports of puppeteer, pixelmatch and pngjs succeed;
    \<open>launch_ok\<close>: the browser launches and opens a page;
  \<^item> \<open>screenshot vp html\<close>: the full-page PNG of the page at viewport \<open>vp\<close>;
  \<^item> \<open>pixelmatch a b\<close>: both PNGs decoded and compared, the count of differing pixels
    and the diff image;
  \<^item> \<open>regexp_valid src\<close>, \<open>regexp_matches src s\<close>: whether the engine accepts \<open>src\<close> as
    a regular expression, and whether that expression matches in \<open>s\<close>. The model asks
    the engine only about the sources it does not decide itself, see \<open>new_RegExp\<close>.
\<close>

datatype error =
    NetworkError string
  | FileError string
  | UrlError string
  | SyntaxError string
  | PurgeError
  | MinifyError
  | BrowserError
  | RenderError string
  | DiffError string

datatype message =
    UsageError
  | VisualDepsMissing
  | VisualDiffTooLarge
  | Wrote string
  | Failed error

datatype render_event = Snap string string | Compared string nat

text \<open>
  The world the script acts on: the files by resolved path, the lines written to the
  console (the lines of \<open>--verbose\<close> are left out), and the record of what the browser
  rendered and what was compared.
\<close>

record world =
  files :: "string \<rightharpoonup> string"
  console :: "message list"
  rendered :: "render_event list"

definition readFile :: "collab \<Rightarrow> world \<Rightarrow> string \<Rightarrow> error + string" where
  "readFile K W p =
     (case files W (path_resolve K p) of
        None \<Rightarrow> Inl (FileError p)
      | Some c \<Rightarrow> Inr c)"

definition writeFile :: "collab \<Rightarrow> world \<Rightarrow> string \<Rightarrow> string \<Rightarrow> error + world" where
  "writeFile K W p c =
     (if can_write K (path_resolve K p)
      then Inr (W\<lparr>files := (files W)(path_resolve K p \<mapsto> c)\<rparr>)
      else Inl (FileError p))"

definition say :: "message \<Rightarrow> world \<Rightarrow> world" where
  "say m W = W\<lparr>console := console W @ [m]\<rparr>"

section \<open>Aggregator: \<open>loadHtmlAndCss\<close>\<close>

definition newline :: char where
  "newline = CHR 0x0A"

definition is_http_url :: "string \<Rightarrow> bool" where
  \<comment> \<open>\<open>/^https?:\/\//i\<close>\<close>
  "is_http_url u = (startsWith_ci ''http://'' u \<or> startsWith_ci ''https://'' u)"

definition is_http_scheme :: "string \<Rightarrow> bool" where
  \<comment> \<open>\<open>/^https?:/i\<close>\<close>
  "is_http_scheme u = (startsWith_ci ''http:'' u \<or> startsWith_ci ''https:'' u)"

definition absUrl :: "collab \<Rightarrow> string \<Rightarrow> string \<Rightarrow> error + string option" where
  \<comment> \<open>\<open>Inr None\<close> is the result \<open>null\<close>\<close>
  "absUrl K u base =
     (if u = [] then Inr None
      else if startsWith ''data:'' u then Inr None
      else if is_http_url u then Inr (Some u)
      else if startsWith ''//'' u
           then (case url_protocol K base of
                   None \<Rightarrow> Inl (UrlError base)
                 | Some p \<Rightarrow> Inr (Some (p @ u)))
      else if startsWith ''/'' u
           then (case url_href K u base of
                   None \<Rightarrow> Inl (UrlError u)
                 | Some h \<Rightarrow> Inr (Some h))
      else (case url_href K u base of
              None \<Rightarrow> Inl (UrlError u)
            | Some h \<Rightarrow> Inr (Some h)))"

definition fetch_css :: "collab \<Rightarrow> string \<Rightarrow> error + string" where
  \<comment> \<open>the network branch: \<open>await fetch(url)\<close> and \<open>await res.text()\<close>, outside any
      \<open>try\<close>\<close>
  "fetch_css K url =
     (case fetch_text K url of
        None \<Rightarrow> Inl (NetworkError url)
      | Some css \<Rightarrow> Inr css)"

definition read_css :: "collab \<Rightarrow> world \<Rightarrow> string \<Rightarrow> string \<Rightarrow> error + string" where
  \<comment> \<open>the local branch: \<open>try { css = await fs.readFile(diskPath, "utf8"); } catch
      { css = ""; }\<close>\<close>
  "read_css K W ip href =
     (case readFile K W (path_resolve2 K (path_dirname K ip) (takeWhile (\<lambda>c. c \<noteq> CHR ''?'') href)) of
        Inl e \<Rightarrow> Inr []
      | Inr css \<Rightarrow> Inr css)"

definition load_css :: "collab \<Rightarrow> config \<Rightarrow> world \<Rightarrow> string \<Rightarrow> string \<Rightarrow> error + string" where
  \<comment> \<open>\<open>if (!/^https?:/i.test(url) && inputPath) ... else ...\<close>\<close>
  "load_css K C W href url =
     (case inputPath C of
        None \<Rightarrow> fetch_css K url
      | Some ip \<Rightarrow> if \<not> is_http_scheme url then read_css K W ip href else fetch_css K url)"

definition wrap_media :: "string \<Rightarrow> string \<Rightarrow> string" where
  \<comment> \<open>the template \<open>@media ${media}{\n${css}\n}\<close>\<close>
  "wrap_media media css = ''@media '' @ media @ ''{'' @ [newline] @ css @ [newline] @ ''}''"

definition link_media :: "node \<Rightarrow> string" where
  \<comment> \<open>\<open>(link.getAttribute("media") || "").trim()\<close>\<close>
  "link_media link = trim (case getAttribute link ''media'' of None \<Rightarrow> [] | Some m \<Rightarrow> m)"

definition link_href :: "node \<Rightarrow> string" where
  \<comment> \<open>\<open>link.getAttribute("href") || ""\<close>\<close>
  "link_href link = (case getAttribute link ''href'' of None \<Rightarrow> [] | Some h \<Rightarrow> h)"

definition link_source :: "collab \<Rightarrow> config \<Rightarrow> world \<Rightarrow> node \<Rightarrow> error + string option" where
  \<comment> \<open>the CSS text one link contributes, before any wrapping: \<open>Inr None\<close> when the
      loop takes \<open>continue\<close> (no URL, or empty text), \<open>Inl\<close> when a call throws\<close>
  "link_source K C W link =
     (case absUrl K (link_href link) (baseUrl C) of
        Inl e \<Rightarrow> Inl e
      | Inr None \<Rightarrow> Inr None
      | Inr (Some url) \<Rightarrow>
          if url = [] then Inr None
          else (case load_css K C W (link_href link) url of
                  Inl e \<Rightarrow> Inl e
                | Inr css \<Rightarrow> if css = [] then Inr None else Inr (Some css)))"

definition link_part :: "collab \<Rightarrow> config \<Rightarrow> world \<Rightarrow> node \<Rightarrow> error + string option" where
  \<comment> \<open>what one round of the loop pushes on \<open>cssParts\<close>\<close>
  "link_part K C W link =
     (case link_source K C W link of
        Inl e \<Rightarrow> Inl e
      | Inr None \<Rightarrow> Inr None
      | Inr (Some css) \<Rightarrow>
          if link_media link \<noteq> [] \<and> toLowerCase (link_media link) \<noteq> ''all''
          then Inr (Some (wrap_media (link_media link) css))
          else Inr (Some css))"

fun gather_linked :: "collab \<Rightarrow> config \<Rightarrow> world \<Rightarrow> node list \<Rightarrow> string list \<Rightarrow> error + string list" where
  \<comment> \<open>\<open>for (const link of linked) { ... cssParts.push(...) }\<close>\<close>
  "gather_linked K C W [] cssParts = Inr cssParts"
| "gather_linked K C W (link # rest) cssParts =
     (case link_part K C W link of
        Inl e \<Rightarrow> Inl e
      | Inr None \<Rightarrow> gather_linked K C W rest cssParts
      | Inr (Some part) \<Rightarrow> gather_linked K C W rest (cssParts @ [part]))"

definition load_html :: "collab \<Rightarrow> config \<Rightarrow> world \<Rightarrow> error + string" where
  "load_html K C W =
     (case pageUrl C of
        Some u \<Rightarrow> (case fetch_text K u of None \<Rightarrow> Inl (NetworkError u) | Some h \<Rightarrow> Inr h)
      | None \<Rightarrow> (case inputPath C of None \<Rightarrow> Inl (FileError []) | Some ip \<Rightarrow> readFile K W ip))"

definition loadHtmlAndCss :: "collab \<Rightarrow> config \<Rightarrow> world \<Rightarrow> error + string \<times> string" where
  "loadHtmlAndCss K C W =
     (case load_html K C W of
        Inl e \<Rightarrow> Inl e
      | Inr html \<Rightarrow>
          (let doc = parse_html K html;
               linked = querySelectorAll sel_stylesheet doc;
               inlines = querySelectorAll sel_style doc
           in case gather_linked K C W linked [] of
                Inl e \<Rightarrow> Inl e
              | Inr cssParts \<Rightarrow>
                  Inr (html, join [newline, newline] (cssParts @ map textContent inlines))))"

section \<open>Pruner and minifier\<close>

definition SAFE_PREFIXES :: "string list" where
  "SAFE_PREFIXES =
     [''elementor'', ''e-'', ''woocommerce'', ''cartflows'', ''wcf'', ''ast-'', ''wp-'',
      ''swiper'', ''select2'', ''dashicons'', ''uagb'', ''cfp-'', ''wpcf7'']"

definition strip_dash :: "string \<Rightarrow> string" where
  \<comment> \<open>\<open>s.replace(/-$/, "")\<close>\<close>
  "strip_dash s = (if endsWith ''-'' s then butlast s else s)"

definition safelistExtra_of :: "string \<Rightarrow> string list" where
  \<comment> \<open>\<open>(args.safelist || "").split(",").map(s=>s.trim()).filter(Boolean)\<close>\<close>
  "safelistExtra_of s = csv_list s"

text \<open>
  \<open>new RegExp(src)\<close> throws a SyntaxError when \<open>src\<close> is not a regular expression. A
  compiled expression is kept as its source. Two kinds of source are decided here, as
  the language defines them; the engine is asked about every other source:
  \<^item> \<open>^\<close> followed by letters, digits, \<open>-\<close> and \<open>_\<close> only is an expression, and it
    matches the strings that start with those characters;
  \<^item> \<open>^\<close> followed by such characters and at least one \<open>(\<close>, and nothing else, is not
    an expression: its group is never closed.
\<close>

definition is_literal_char :: "char \<Rightarrow> bool" where
  \<comment> \<open>characters that stand for themselves in a regular expression\<close>
  "is_literal_char c =
     (c \<in> set ''abcdefghijklmnopqrstuvwxyzABCDEFGHIJKLMNOPQRSTUVWXYZ0123456789-_'')"

definition literal_source :: "string \<Rightarrow> bool" where
  "literal_source p = list_all is_literal_char p"

definition open_group_source :: "string \<Rightarrow> bool" where
  "open_group_source p =
     (CHR ''('' \<in> set p \<and> list_all (\<lambda>c. is_literal_char c \<or> c = CHR ''('') p)"

definition regexp_compiles :: "collab \<Rightarrow> string \<Rightarrow> bool" where
  "regexp_compiles K src =
     (case src of
        [] \<Rightarrow> regexp_valid K src
      | c # p \<Rightarrow>
          if c = CHR ''^'' \<and> literal_source p then True
          else if c = CHR ''^'' \<and> open_group_source p then False
          else regexp_valid K src)"

definition new_RegExp :: "collab \<Rightarrow> string \<Rightarrow> error + regexp" where
  "new_RegExp K src = (if regexp_compiles K src then Inr (RegExp src) else Inl (SyntaxError src))"


fun compile_prefixes :: "collab \<Rightarrow> string list \<Rightarrow> error + regexp list" where
  \<comment> \<open>\<open>prefixes.map(p => new RegExp(`^${p}`))\<close>: the first source that does not
      compile ends the map with its error\<close>
  "compile_prefixes K [] = Inr []"
| "compile_prefixes K (p # ps) =
     (case new_RegExp K (''^'' @ p) of
        Inl e \<Rightarrow> Inl e
      | Inr re \<Rightarrow>
          (case compile_prefixes K ps of
             Inl e \<Rightarrow> Inl e
           | Inr res \<Rightarrow> Inr (re # res)))"

definition buildSafelist :: "collab \<Rightarrow> string list \<Rightarrow> error + safelist" where
  "buildSafelist K extra =
     (let standard = SAFE_PREFIXES @ filter (\<lambda>s. \<not> endsWith ''-'' s) extra;
          prefixes = SAFE_PREFIXES @ map strip_dash (filter (\<lambda>s. endsWith ''-'' s) extra)
      in case compile_prefixes K prefixes of
           Inl e \<Rightarrow> Inl e
         | Inr patterns \<Rightarrow> Inr \<lparr>standard = standard, deep = patterns, greedy = patterns\<rparr>)"

definition purgeCss :: "collab \<Rightarrow> string \<Rightarrow> string \<Rightarrow> string list \<Rightarrow> error + string" where
  \<comment> \<open>\<open>return res[0]?.css || css\<close>\<close>
  "purgeCss K html css extraSafe =
     (case buildSafelist K extraSafe of
        Inl e \<Rightarrow> Inl e
      | Inr safelist \<Rightarrow>
          (case purge K html css safelist defaultExtractor of
             None \<Rightarrow> Inl PurgeError
           | Some None \<Rightarrow> Inr css
           | Some (Some out) \<Rightarrow> Inr (if out = [] then css else out)))"

definition minifyCss :: "collab \<Rightarrow> string \<Rightarrow> error + string" where
  "minifyCss K css = (case minify K css of None \<Rightarrow> Inl MinifyError | Some out \<Rightarrow> Inr out)"

section \<open>Assembler: \<open>serializeWithStyle\<close>\<close>

definition meta_charset :: node where
  "meta_charset = Element ''meta'' [(''charset'', ''utf-8'')] []"

definition meta_viewport :: node where
  "meta_viewport =
     Element ''meta'' [(''name'', ''viewport''), (''content'', ''width=device-width, initial-scale=1'')] []"

definition style_element :: "string \<Rightarrow> node" where
  \<comment> \<open>\<open>createElement("style")\<close> with \<open>textContent = finalCss\<close>\<close>
  "style_element css = Element ''style'' [] (if css = [] then [] else [TextNode css])"

definition prepend_head :: "node \<Rightarrow> document \<Rightarrow> document" where
  "prepend_head n doc = doc\<lparr>doc_head := n # doc_head doc\<rparr>"

definition append_head :: "node \<Rightarrow> document \<Rightarrow> document" where
  "append_head n doc = doc\<lparr>doc_head := doc_head doc @ [n]\<rparr>"

definition assemble :: "config \<Rightarrow> document \<Rightarrow> string \<Rightarrow> document" where
  \<comment> \<open>the changes \<open>serializeWithStyle\<close> makes to the parsed document, in its order\<close>
  "assemble C doc0 finalCss =
     (let doc1 = (if \<not> keepFontLinks C then remove_all sel_font_link doc0 else doc0);
          doc2 = remove_all sel_other_link doc1;
          doc3 = remove_all sel_script_or_hint doc2;
          doc4 = (if querySelectorAll sel_meta_charset doc3 = []
                  then prepend_head meta_charset doc3 else doc3);
          doc5 = (if querySelectorAll sel_meta_viewport doc4 = []
                  then append_head meta_viewport doc4 else doc4)
      in append_head (style_element finalCss) doc5)"

definition serializeWithStyle :: "collab \<Rightarrow> config \<Rightarrow> string \<Rightarrow> string \<Rightarrow> string" where
  "serializeWithStyle K C originalHtml finalCss =
     ''<!DOCTYPE html>'' @ [newline] @ serialize K (assemble C (parse_html K originalHtml) finalCss)"

section \<open>Visual guard\<close>

definition tmp_orig :: "collab \<Rightarrow> string" where
  \<comment> \<open>\<open>path.resolve(".orig__tmp.html")\<close>\<close>
  "tmp_orig K = path_resolve K ''.orig__tmp.html''"

definition tmp_slim :: "collab \<Rightarrow> string" where
  \<comment> \<open>\<open>path.resolve(".slim__tmp.html")\<close>\<close>
  "tmp_slim K = path_resolve K ''.slim__tmp.html''"

definition strip_html :: "string \<Rightarrow> string" where
  \<comment> \<open>\<open>file.replace(/\.html$/, "")\<close>\<close>
  "strip_html file = (if endsWith ''.html'' file then take (length file - 5) file else file)"

definition pngPath :: "string \<Rightarrow> string \<Rightarrow> string" where
  "pngPath file vp = strip_html file @ ''.'' @ vp @ ''.png''"

definition diffPath :: "string \<Rightarrow> string" where
  \<comment> \<open>the template \<open>diff.${vp}.png\<close>\<close>
  "diffPath vp = ''diff.'' @ vp @ ''.png''"

definition snap :: "collab \<Rightarrow> string \<Rightarrow> string \<Rightarrow> world \<Rightarrow> (error + string) \<times> world" where
  \<comment> \<open>the page is set to the viewport, loads the file and is captured into
      \<open>pngPath\<close>; the browser throws on a viewport it cannot set or a file it cannot
      load\<close>
  "snap K vp file W =
     (case files W (path_resolve K file) of
        None \<Rightarrow> (Inl (RenderError vp), W)
      | Some html \<Rightarrow>
          (case screenshot K vp html of
             None \<Rightarrow> (Inl (RenderError vp), W)
           | Some png \<Rightarrow>
               (case writeFile K W (pngPath file vp) png of
                  Inl e \<Rightarrow> (Inl e, W)
                | Inr W1 \<Rightarrow>
                    (Inr (pngPath file vp), W1\<lparr>rendered := rendered W1 @ [Snap vp file]\<rparr>))))"

fun compare_viewports ::
  "collab \<Rightarrow> string \<Rightarrow> string \<Rightarrow> string list \<Rightarrow> nat \<Rightarrow> world \<Rightarrow> (error + nat) \<times> world" where
  \<comment> \<open>\<open>for (const vp of vps) { ... worst = Math.max(worst, n); ... }\<close>\<close>
  "compare_viewports K t1 t2 [] worst W = (Inr worst, W)"
| "compare_viewports K t1 t2 (vp # vps) worst W =
     (case snap K vp t1 W of
        (Inl e, W1) \<Rightarrow> (Inl e, W1)
      | (Inr o_png, W1) \<Rightarrow>
          (case snap K vp t2 W1 of
             (Inl e, W2) \<Rightarrow> (Inl e, W2)
           | (Inr s_png, W2) \<Rightarrow>
               (case readFile K W2 o_png of
                  Inl e \<Rightarrow> (Inl e, W2)
                | Inr origPng \<Rightarrow>
                    (case readFile K W2 s_png of
                       Inl e \<Rightarrow> (Inl e, W2)
                     | Inr slimPng \<Rightarrow>
                         (case pixelmatch K origPng slimPng of
                            None \<Rightarrow> (Inl (DiffError vp), W2)
                          | Some (n, diff) \<Rightarrow>
                              (case writeFile K W2 (diffPath vp) diff of
                                 Inl e \<Rightarrow> (Inl e, W2)
                               | Inr W3 \<Rightarrow>
                                   compare_viewports K t1 t2 vps (max worst n)
                                     (W3\<lparr>rendered := rendered W3 @ [Compared vp n]\<rparr>)))))))"

definition visualGuard ::
  "collab \<Rightarrow> string \<Rightarrow> string \<Rightarrow> string \<Rightarrow> world \<Rightarrow> (error + bool) \<times> world" where
  "visualGuard K originalHtml slimHtml viewportsCsv W =
     (if \<not> deps_available K then (Inr True, say VisualDepsMissing W)
      else if \<not> launch_ok K then (Inl BrowserError, W)
      else (case writeFile K W (tmp_orig K) originalHtml of
              Inl e \<Rightarrow> (Inl e, W)
            | Inr W1 \<Rightarrow>
                (case writeFile K W1 (tmp_slim K) slimHtml of
                   Inl e \<Rightarrow> (Inl e, W1)
                 | Inr W2 \<Rightarrow>
                     (case compare_viewports K (tmp_orig K) (tmp_slim K)
                             (csv_list viewportsCsv) 0 W2 of
                        (Inl e, W3) \<Rightarrow> (Inl e, W3)
                      | (Inr worst, W3) \<Rightarrow> (Inr (worst \<le> 500), W3)))))"

section \<open>The run\<close>

text \<open>
  A run returns the exit code of the process and the world it leaves: 0 when the script
  runs to its end, 1 from \<open>process.exit(1)\<close> (no input given, or an exception caught by
  the \<open>try\<close> around the stages), 2 from \<open>process.exit(2)\<close> after the guard rejects.
\<close>

definition fail :: "error \<Rightarrow> world \<Rightarrow> nat \<times> world" where
  "fail e W = (1, say (Failed e) W)"

definition guard_stage ::
  "collab \<Rightarrow> config \<Rightarrow> string \<Rightarrow> string \<Rightarrow> world \<Rightarrow> (error + bool) \<times> world" where
  \<comment> \<open>\<open>if (doVisual) { const ok = await visualGuard(...); ... }\<close>\<close>
  "guard_stage K C html slim W =
     (if doVisual C then visualGuard K html slim (vpsArg C) W else (Inr True, W))"

definition main :: "collab \<Rightarrow> config \<Rightarrow> world \<Rightarrow> nat \<times> world" where
  "main K C W =
     (if inputPath C = None \<and> pageUrl C = None then (1, say UsageError W)
      else (case loadHtmlAndCss K C W of
              Inl e \<Rightarrow> fail e W
            | Inr (html, css) \<Rightarrow>
                (case purgeCss K html css (safelistExtra C) of
                   Inl e \<Rightarrow> fail e W
                 | Inr purged \<Rightarrow>
                     (case minifyCss K purged of
                        Inl e \<Rightarrow> fail e W
                      | Inr minimized \<Rightarrow>
                          (case guard_stage K C html (serializeWithStyle K C html minimized) W of
                             (Inl e, W1) \<Rightarrow> fail e W1
                           | (Inr ok, W1) \<Rightarrow>
                               if \<not> ok then (2, say VisualDiffTooLarge W1)
                               else (case writeFile K W1 (outPath C)
                                            (serializeWithStyle K C html minimized) of
                                       Inl e \<Rightarrow> fail e W1
                                     | Inr W2 \<Rightarrow> (0, say (Wrote (outPath C)) W2)))))))"

section \<open>What each source contributes\<close>

text \<open>
  The sources of a document as the specification lists them, read off the world and not
  off the loop: the text of a linked stylesheet is what the file on disk holds (for a
  document loaded from a local path and a reference that, resolved against the base, is
  not an \<open>http\<close> or \<open>https\<close> URL) or what the request for its URL returns, and it is
  empty when there is nothing to read. A
  linked stylesheet with text contributes it inside a media block when it declares a
  media type other than \<open>all\<close>, and as it is otherwise. The inline style blocks contribute
  their contents.
\<close>

definition disk_file :: "collab \<Rightarrow> string \<Rightarrow> string \<Rightarrow> string" where
  "disk_file K ip href =
     path_resolve K (path_resolve2 K (path_dirname K ip) (takeWhile (\<lambda>c. c \<noteq> CHR ''?'') href))"

definition source_text :: "collab \<Rightarrow> config \<Rightarrow> world \<Rightarrow> node \<Rightarrow> string" where
  "source_text K C W link =
     (case absUrl K (link_href link) (baseUrl C) of
        Inr (Some url) \<Rightarrow>
          if url = [] then []
          else (case inputPath C of
                  Some ip \<Rightarrow>
                    if is_http_scheme url
                    then (case fetch_text K url of None \<Rightarrow> [] | Some t \<Rightarrow> t)
                    else (case files W (disk_file K ip (link_href link)) of
                            None \<Rightarrow> []
                          | Some t \<Rightarrow> t)
                | None \<Rightarrow> (case fetch_text K url of None \<Rightarrow> [] | Some t \<Rightarrow> t))
      | _ \<Rightarrow> [])"

definition media_type :: "node \<Rightarrow> string" where
  "media_type link = (case getAttribute link ''media'' of None \<Rightarrow> [] | Some m \<Rightarrow> trim m)"

definition in_media_block :: "string \<Rightarrow> string \<Rightarrow> string" where
  "in_media_block m t = ''@media '' @ m @ ''{'' @ [newline] @ t @ [newline] @ ''}''"

definition expected_part :: "collab \<Rightarrow> config \<Rightarrow> world \<Rightarrow> node \<Rightarrow> string option" where
  "expected_part K C W link =
     (if source_text K C W link = [] then None
      else if media_type link \<noteq> [] \<and> toLowerCase (media_type link) \<noteq> ''all''
           then Some (in_media_block (media_type link) (source_text K C W link))
           else Some (source_text K C W link))"

definition linked_parts :: "collab \<Rightarrow> config \<Rightarrow> world \<Rightarrow> document \<Rightarrow> string list" where
  "linked_parts K C W doc =
     List.map_filter (expected_part K C W) (querySelectorAll sel_stylesheet doc)"

definition inline_parts :: "document \<Rightarrow> string list" where
  "inline_parts doc = map textContent (querySelectorAll sel_style doc)"



section \<open>What the guard touches\<close>

text \<open>
  The files the guard writes for a list of viewports, by resolved path: its two
  temporary documents and, for each viewport, the two captures and the diff image. And
  the record a guard leaves that has rendered and compared every viewport of a list, in
  order, given the pixel counts.
\<close>

definition vp_files :: "collab \<Rightarrow> string \<Rightarrow> string \<Rightarrow> string \<Rightarrow> string list" where
  "vp_files K t1 t2 vp =
     [path_resolve K (pngPath t1 vp), path_resolve K (pngPath t2 vp), path_resolve K (diffPath vp)]"

definition viewport_files :: "collab \<Rightarrow> string \<Rightarrow> string \<Rightarrow> string list \<Rightarrow> string list" where
  "viewport_files K t1 t2 vps = concat (map (vp_files K t1 t2) vps)"

definition guard_files :: "collab \<Rightarrow> string list \<Rightarrow> string list" where
  "guard_files K vps =
     [path_resolve K (tmp_orig K), path_resolve K (tmp_slim K)]
     @ viewport_files K (tmp_orig K) (tmp_slim K) vps"

definition guard_trace :: "string \<Rightarrow> string \<Rightarrow> string list \<Rightarrow> nat list \<Rightarrow> render_event list" where
  "guard_trace t1 t2 vps ns =
     concat (map (\<lambda>(vp, n). [Snap vp t1, Snap vp t2, Compared vp n]) (zip vps ns))"

text \<open>
  What the guard is to compare at a viewport: the pixel count of the capture of the
  original document against the capture of the slimmed one. The captures are read back
  from the guard's working files, so the counts are these when the working files are
  different files, as they are for \<open>path.resolve\<close> and viewport names like \<open>1440x900\<close>.
\<close>

definition expected_count :: "collab \<Rightarrow> string \<Rightarrow> string \<Rightarrow> string \<Rightarrow> nat option" where
  "expected_count K orig slim vp =
     (case screenshot K vp orig of
        None \<Rightarrow> None
      | Some a \<Rightarrow>
          (case screenshot K vp slim of
             None \<Rightarrow> None
           | Some b \<Rightarrow> map_option fst (pixelmatch K a b)))"

definition guard_files_apart :: "collab \<Rightarrow> string list \<Rightarrow> bool" where
  "guard_files_apart K vps =
     (path_resolve K (tmp_orig K) \<noteq> path_resolve K (tmp_slim K) \<and>
      path_resolve K (tmp_orig K) \<notin> set (viewport_files K (tmp_orig K) (tmp_slim K) vps) \<and>
      path_resolve K (tmp_slim K) \<notin> set (viewport_files K (tmp_orig K) (tmp_slim K) vps) \<and>
      (\<forall>vp \<in> set vps. path_resolve K (pngPath (tmp_orig K) vp) \<noteq>
                        path_resolve K (pngPath (tmp_slim K) vp)))"

section \<open>Selectors and removal\<close>

text \<open>
  The selectors of the script look at the tag and the attributes of an element, never
  at its children; \<open>doc_elements\<close> lists the elements of a document in document order.
\<close>

definition shallow :: "(node \<Rightarrow> bool) \<Rightarrow> bool" where
  "shallow sel = (\<forall>t as cs cs'. sel (Element t as cs) = sel (Element t as cs'))"

definition doc_elements :: "document \<Rightarrow> node list" where
  "doc_elements doc = elements_in (doc_head doc @ doc_body doc)"

section \<open>Sample runs\<close>

text \<open>Concrete pages, collaborators and configurations, used to run the model.\<close>

definition link_to :: "string \<Rightarrow> node" where
  \<comment> \<open>\<open><link rel="stylesheet" href=h>\<close>\<close>
  "link_to h = Element ''link'' [(''rel'', ''stylesheet''), (''href'', h)] []"

definition sample_page :: document where
  "sample_page =
     \<lparr>doc_head =
        [link_to ''https://cdn.example.com/a.css'', link_to ''https://cdn.example.com/b.css''],
      doc_body = []\<rparr>"

definition sample_collab :: collab where
  "sample_collab =
     \<lparr>parse_html = (\<lambda>h. sample_page),
      serialize = (\<lambda>d. ''<html></html>''),
      fetch_text = (\<lambda>u. if u = ''https://example.com/landing'' then Some ''<html>''
                        else if u = ''https://cdn.example.com/a.css'' then Some ''a{}''
                        else if u = ''https://cdn.example.com/b.css'' then Some ''b{}''
                        else None),
      url_protocol = (\<lambda>b. Some ''https:''),
      url_href = (\<lambda>u b. Some (b @ u)),
      path_dirname = (\<lambda>p. ''/site''),
      path_resolve2 = (\<lambda>d f. d @ ''/'' @ f),
      path_resolve = (\<lambda>p. if startsWith ''/'' p then p else ''/cwd/'' @ p),
      can_write = (\<lambda>p. True),
      purge = (\<lambda>h c s x. Some (Some c)),
      minify = (\<lambda>c. Some c),
      deps_available = True,
      launch_ok = True,
      screenshot = (\<lambda>vp html. Some (vp @ '':'' @ html)),
      pixelmatch = (\<lambda>a b. Some (if startsWith ''390x844'' a then 812 else 20, ''png'')),
      regexp_valid = (\<lambda>src. True),
      regexp_matches = (\<lambda>src s. False)\<rparr>"

definition sample_config :: config where
  \<comment> \<open>\<open>--url https://example.com/landing --viewports 1440x900,390x844\<close>\<close>
  "sample_config =
     \<lparr>inputPath = None, pageUrl = Some ''https://example.com/landing'', outPath = ''slim.html'',
      doVisual = True, keepFontLinks = False, vpsArg = ''1440x900,390x844'',
      safelistExtra = [], baseUrl = ''https://example.com''\<rparr>"

definition empty_world :: world where
  "empty_world = \<lparr>files = Map.empty, console = [], rendered = []\<rparr>"


definition media_link :: "string \<Rightarrow> string \<Rightarrow> node" where
  \<comment> \<open>\<open><link rel="stylesheet" href=h media=m>\<close>\<close>
  "media_link h m = Element ''link'' [(''rel'', ''stylesheet''), (''href'', h), (''media'', m)] []"

definition style_block :: "string \<Rightarrow> node" where
  \<comment> \<open>\<open><style>css</style>\<close>\<close>
  "style_block css = Element ''style'' [] [TextNode css]"

definition mixed_page :: document where
  \<comment> \<open>a style block before the links, a link with a \<open>data:\<close> URL, a print
      stylesheet, and a style block in the body\<close>
  "mixed_page =
     \<lparr>doc_head =
        [style_block ''s1{}'',
         link_to ''https://cdn.example.com/a.css'',
         link_to ''data:text/css,x{}'',
         media_link ''https://cdn.example.com/b.css'' ''print''],
      doc_body = [Element ''div'' [] [style_block ''s2{}'']]\<rparr>"

definition mixed_collab :: collab where
  "mixed_collab = sample_collab\<lparr>parse_html := (\<lambda>h. mixed_page)\<rparr>"

definition mixed_css :: string where
  "mixed_css =
     ''a{}'' @ [newline, newline] @ ''@media print{'' @ [newline] @ ''b{}'' @ [newline] @ ''}''
     @ [newline, newline] @ ''s1{}'' @ [newline, newline] @ ''s2{}''"

definition upper_page :: document where
  \<comment> \<open>one stylesheet, linked with \<open>media="ALL"\<close>\<close>
  "upper_page = \<lparr>doc_head = [media_link ''https://cdn.example.com/a.css'' ''ALL''], doc_body = []\<rparr>"

definition sample_css :: string where
  \<comment> \<open>the aggregate of \<open>sample_page\<close>\<close>
  "sample_css = ''a{}'' @ [newline, newline] @ ''b{}''"

definition no_deps_collab :: collab where
  \<comment> \<open>puppeteer, pixelmatch and pngjs are not installed\<close>
  "no_deps_collab = sample_collab\<lparr>deps_available := False\<rparr>"

definition alias_config :: config where
  \<comment> \<open>\<open>--out .slim__tmp.html\<close>\<close>
  "alias_config = sample_config\<lparr>outPath := ''.slim__tmp.html''\<rparr>"

definition down_collab :: collab where
  \<comment> \<open>the request for \<open>a.css\<close> fails\<close>
  "down_collab =
     sample_collab\<lparr>fetch_text :=
       (\<lambda>u. if u = ''https://cdn.example.com/a.css'' then None else fetch_text sample_collab u)\<rparr>"

definition local_page :: document where
  "local_page = \<lparr>doc_head = [link_to ''a.css'', link_to ''b.css''], doc_body = []\<rparr>"

definition local_collab :: collab where
  "local_collab = sample_collab\<lparr>parse_html := (\<lambda>h. local_page)\<rparr>"

definition local_config :: config where
  \<comment> \<open>\<open>--in /site/index.html --base file:///site/ --no-visual\<close>\<close>
  "local_config =
     \<lparr>inputPath = Some ''/site/index.html'', pageUrl = None, outPath = ''slim.html'',
      doVisual = False, keepFontLinks = False, vpsArg = ''1440x900'',
      safelistExtra = [], baseUrl = ''file:///site/''\<rparr>"

definition local_world :: world where
  \<comment> \<open>the page and \<open>b.css\<close> are on disk, \<open>a.css\<close> is not\<close>
  "local_world =
     \<lparr>files = [''/site/index.html'' \<mapsto> ''<html>'', ''/site/b.css'' \<mapsto> ''b{}''],
      console = [], rendered = []\<rparr>"

definition styled_page :: document where
  \<comment> \<open>one style block in the head, one script in the body\<close>
  "styled_page =
     \<lparr>doc_head = [style_block ''body{margin:0}''],
      doc_body = [Element ''script'' [] [TextNode ''init()'']]\<rparr>"

definition font_page :: document where
  \<comment> \<open>a Google Fonts stylesheet link and a theme stylesheet link\<close>
  "font_page =
     \<lparr>doc_head =
        [link_to ''https://fonts.googleapis.com/css?family=Roboto'',
         link_to ''https://example.com/theme.css''],
      doc_body = []\<rparr>"

definition plain_argv :: "string list" where
  "plain_argv = [''node'', ''cli.mjs'', ''--url'', ''https://example.com/landing'']"

definition unescaped_config :: config where
  \<comment> \<open>\<open>--safelist "foo(-"\<close>\<close>
  "unescaped_config = sample_config\<lparr>safelistExtra := safelistExtra_of ''foo(-''\<rparr>"

definition upper_rel_page :: document where
  \<comment> \<open>a stylesheet link and a preload link with \<open>rel\<close> in capitals\<close>
  "upper_rel_page =
     \<lparr>doc_head =
        [Element ''link'' [(''rel'', ''STYLESHEET''), (''href'', ''https://cdn.example.com/a.css'')] [],
         Element ''link'' [(''rel'', ''Preload''), (''href'', ''https://cdn.example.com/f.woff2'')] []],
      doc_body = []\<rparr>"

section \<open>Safelist\<close>






lemma compile_prefixes_Inr:
  "compile_prefixes K ps = Inr res \<Longrightarrow>
     res = map (\<lambda>p. RegExp (''^'' @ p)) ps \<and> (\<forall>p \<in> set ps. regexp_compiles K (''^'' @ p))"
proof (induction ps arbitrary: res)
  case Nil
  then show ?case by simp
next
  case (Cons p ps)
  from Cons.prems obtain res' where
    c: "regexp_compiles K (''^'' @ p)" and r: "compile_prefixes K ps = Inr res'"
    and e: "res = RegExp (''^'' @ p) # res'"
    by (auto simp add: new_RegExp_def split: if_splits sum.splits)
  from Cons.IH [OF r] c e show ?case by simp
qed


lemma compile_prefixes_Inl:
  "p \<in> set ps \<Longrightarrow> \<not> regexp_compiles K (''^'' @ p) \<Longrightarrow> \<exists>e. compile_prefixes K ps = Inl e"
  using compile_prefixes_Inr [of K ps] by (cases "compile_prefixes K ps") auto










lemma invalid_prefix_entry_throws:
  "buildSafelist K [''foo(-''] = Inl (SyntaxError ''^foo('')"
  by (simp add: buildSafelist_def Let_def SAFE_PREFIXES_def endsWith_def strip_dash_def
      new_RegExp_def regexp_compiles_def literal_source_def open_group_source_def
      is_literal_char_def)

lemma invalid_prefix_entry_run:
  "safelistExtra unescaped_config = [''foo(-''] \<and>
   fst (main sample_collab unescaped_config empty_world) = 1 \<and>
   console (snd (main sample_collab unescaped_config empty_world)) =
     [Failed (SyntaxError ''^foo('')]"
  by code_simp



section \<open>Token extraction\<close>





















section \<open>Aggregation\<close>

lemma link_source_text:
  "link_source K C W link = Inr r \<Longrightarrow>
     r = (if source_text K C W link = [] then None else Some (source_text K C W link))"
  by (auto simp add: link_source_def source_text_def load_css_def read_css_def fetch_css_def
      readFile_def disk_file_def split: sum.splits option.splits if_splits)

lemma trim_Nil: "trim [] = []"
  by (simp add: trim_def)

lemma link_part_expected:
  assumes "link_part K C W link = Inr r"
  shows "r = expected_part K C W link"
proof -
  from assms obtain r0 where s: "link_source K C W link = Inr r0"
    by (auto simp add: link_part_def split: sum.splits)
  note t = link_source_text [OF s]
  show ?thesis
    using assms s t
    by (auto simp add: link_part_def expected_part_def media_type_def link_media_def
        wrap_media_def in_media_block_def trim_Nil split: if_splits option.splits)
qed

lemma gather_linked_order:
  "gather_linked K C W ls acc = Inr ps \<Longrightarrow> ps = acc @ List.map_filter (expected_part K C W) ls"
proof (induction ls arbitrary: acc)
  case Nil
  then show ?case by (simp add: List.map_filter_simps)
next
  case (Cons l ls)
  show ?case
  proof (cases "link_part K C W l")
    case (Inl e)
    with Cons.prems show ?thesis by simp
  next
    case (Inr r)
    note e = link_part_expected [OF Inr]
    show ?thesis
    proof (cases r)
      case None
      with Inr Cons.prems have "gather_linked K C W ls acc = Inr ps" by simp
      moreover from e None have "expected_part K C W l = None" by simp
      ultimately show ?thesis
        using Cons.IH [of acc] by (simp add: List.map_filter_simps)
    next
      case (Some p)
      with Inr Cons.prems have "gather_linked K C W ls (acc @ [p]) = Inr ps" by simp
      moreover from e Some have "expected_part K C W l = Some p" by simp
      ultimately show ?thesis
        using Cons.IH [of "acc @ [p]"] by (simp add: List.map_filter_simps)
    qed
  qed
qed


lemma join_Cons: "ps \<noteq> [] \<Longrightarrow> join sep (p # ps) = p @ sep @ join sep ps"
  by (cases ps) simp_all

lemma join_append:
  "xs \<noteq> [] \<Longrightarrow> ys \<noteq> [] \<Longrightarrow> join sep (xs @ ys) = join sep xs @ sep @ join sep ys"
proof (induction xs)
  case Nil
  then show ?case by simp
next
  case (Cons x xs)
  show ?case
  proof (cases "xs = []")
    case True
    with Cons.prems show ?thesis by (simp add: join_Cons)
  next
    case False
    with Cons show ?thesis by (simp add: join_Cons)
  qed
qed

lemma join_contains: "i < length ps \<Longrightarrow> \<exists>a c. join sep ps = a @ ps ! i @ c"
proof (induction ps arbitrary: i)
  case Nil
  then show ?case by simp
next
  case (Cons p ps)
  show ?case
  proof (cases i)
    case 0
    show ?thesis
    proof (cases "ps = []")
      case True
      then have "join sep (p # ps) = [] @ p @ []" by simp
      with 0 show ?thesis by (metis nth_Cons_0)
    next
      case False
      then have "join sep (p # ps) = [] @ p @ (sep @ join sep ps)" by (simp add: join_Cons)
      with 0 show ?thesis by (metis nth_Cons_0)
    qed
  next
    case (Suc k)
    with Cons.prems have k: "k < length ps" by simp
    then have ne: "ps \<noteq> []" by auto
    from Cons.IH [OF k] obtain a c where "join sep ps = a @ ps ! k @ c" by blast
    with ne have "join sep (p # ps) = (p @ sep @ a) @ ps ! k @ c" by (simp add: join_Cons)
    with Suc show ?thesis by (metis nth_Cons_Suc)
  qed
qed

lemma join_contains_mem: "p \<in> set ps \<Longrightarrow> \<exists>a c. join sep ps = a @ p @ c"
  using join_contains [of _ ps sep] by (auto simp add: in_set_conv_nth)

lemma join_in_order:
  assumes "i < j" "j < length ps"
  shows "\<exists>a b c. join sep ps = a @ ps ! i @ b @ ps ! j @ c"
proof -
  have ne1: "take j ps \<noteq> []" using assms by auto
  have ne2: "drop j ps \<noteq> []" using assms by auto
  have i: "i < length (take j ps)" using assms by simp
  from join_contains [OF i, of sep] obtain a c1 where
    a: "join sep (take j ps) = a @ ps ! i @ c1" using assms by auto
  have "0 < length (drop j ps)" using assms by simp
  from join_contains [OF this, of sep] obtain a2 c2 where
    b: "join sep (drop j ps) = a2 @ ps ! j @ c2" using assms by (auto simp add: hd_drop_conv_nth)
  have "join sep ps = join sep (take j ps) @ sep @ join sep (drop j ps)"
    using join_append [OF ne1 ne2, of sep] by simp
  then have "join sep ps = a @ ps ! i @ (c1 @ sep @ a2) @ ps ! j @ c2"
    by (simp add: a b)
  then show ?thesis by blast
qed

lemma map_filter_app: "List.map_filter f (xs @ ys) = List.map_filter f xs @ List.map_filter f ys"
  by (simp add: List.map_filter_def)

lemma map_filter_mem: "x \<in> set xs \<Longrightarrow> f x = Some y \<Longrightarrow> y \<in> set (List.map_filter f xs)"
  by (force simp add: List.map_filter_def)

lemma expected_part_contains:
  "source_text K C W link \<noteq> [] \<Longrightarrow>
     \<exists>p x y. expected_part K C W link = Some p \<and> p = x @ source_text K C W link @ y"
proof (cases "media_type link \<noteq> [] \<and> toLowerCase (media_type link) \<noteq> ''all''")
  case True
  assume "source_text K C W link \<noteq> []"
  with True have "expected_part K C W link =
      Some ((''@media '' @ media_type link @ ''{'' @ [newline]) @ source_text K C W link @ ([newline] @ ''}''))"
    by (simp add: expected_part_def in_media_block_def)
  then show ?thesis by blast
next
  case False
  assume "source_text K C W link \<noteq> []"
  with False have "expected_part K C W link = Some ([] @ source_text K C W link @ [])"
    by (auto simp add: expected_part_def)
  then show ?thesis by blast
qed

lemma aggregate_parts:
  assumes "loadHtmlAndCss K C W = Inr (html, css)"
  shows "load_html K C W = Inr html"
    and "css = join [newline, newline]
                 (linked_parts K C W (parse_html K html) @ inline_parts (parse_html K html))"
proof -
  from assms obtain h where h: "load_html K C W = Inr h"
    by (auto simp add: loadHtmlAndCss_def split: sum.splits)
  with assms obtain ps where
    ps: "gather_linked K C W (querySelectorAll sel_stylesheet (parse_html K h)) [] = Inr ps"
    and eq: "html = h"
      "css = join [newline, newline] (ps @ map textContent (querySelectorAll sel_style (parse_html K h)))"
    by (auto simp add: loadHtmlAndCss_def Let_def split: sum.splits)
  from h eq show "load_html K C W = Inr html" by simp
  from gather_linked_order [OF ps] have "ps = linked_parts K C W (parse_html K h)"
    by (simp add: linked_parts_def)
  with eq show "css = join [newline, newline]
                 (linked_parts K C W (parse_html K html) @ inline_parts (parse_html K html))"
    by (simp add: inline_parts_def)
qed

lemma load_html_world:
  assumes "load_html K C W = Inr html"
  shows "(\<forall>u. pageUrl C = Some u \<longrightarrow> fetch_text K u = Some html) \<and>
         (pageUrl C = None \<longrightarrow>
            (\<exists>ip. inputPath C = Some ip \<and> files W (path_resolve K ip) = Some html))"
  using assms
  by (auto simp add: load_html_def readFile_def split: option.splits)

text \<open>
  Claim C5. When the aggregator returns: the document is the text fetched from the page
  URL or read from the input path; the aggregate is the parts of the linked stylesheets
  that have text, in the order of their links in the document, followed by the contents
  of the inline style blocks in document order, joined by blank lines. The text of each
  such stylesheet, as the file on disk or the response holds it, is in the aggregate,
  and so is the content of every style block; of any two parts the earlier one stands
  before the later one, and every inline block stands after every linked part,
  wherever its element is in the markup.
\<close>

theorem aggregate_order:
  assumes "loadHtmlAndCss K C W = Inr (html, css)"
  shows "css = join [newline, newline]
                 (linked_parts K C W (parse_html K html) @ inline_parts (parse_html K html)) \<and>
         (\<forall>i j. i < j \<and>
                j < length (linked_parts K C W (parse_html K html) @ inline_parts (parse_html K html)) \<longrightarrow>
            (\<exists>a b c. css =
               a @ (linked_parts K C W (parse_html K html) @ inline_parts (parse_html K html)) ! i @
               b @ (linked_parts K C W (parse_html K html) @ inline_parts (parse_html K html)) ! j @ c)) \<and>
         (\<forall>link \<in> set (querySelectorAll sel_stylesheet (parse_html K html)).
            source_text K C W link \<noteq> [] \<longrightarrow> (\<exists>a c. css = a @ source_text K C W link @ c)) \<and>
         (\<forall>st \<in> set (querySelectorAll sel_style (parse_html K html)).
            \<exists>a c. css = a @ textContent st @ c) \<and>
         (\<forall>u. pageUrl C = Some u \<longrightarrow> fetch_text K u = Some html) \<and>
         (pageUrl C = None \<longrightarrow>
            (\<exists>ip. inputPath C = Some ip \<and> files W (path_resolve K ip) = Some html))"
proof -
  let ?doc = "parse_html K html"
  let ?parts = "linked_parts K C W ?doc @ inline_parts ?doc"
  note a = aggregate_parts [OF assms]
  have 1: "css = join [newline, newline] ?parts" by (rule a(2))
  have 2: "\<forall>i j. i < j \<and> j < length ?parts \<longrightarrow>
            (\<exists>a b c. css = a @ ?parts ! i @ b @ ?parts ! j @ c)"
    unfolding 1 using join_in_order [of _ _ ?parts] by blast
  have 3: "\<forall>link \<in> set (querySelectorAll sel_stylesheet ?doc).
            source_text K C W link \<noteq> [] \<longrightarrow> (\<exists>a c. css = a @ source_text K C W link @ c)"
  proof (intro ballI impI)
    fix link
    assume l: "link \<in> set (querySelectorAll sel_stylesheet ?doc)"
      and t: "source_text K C W link \<noteq> []"
    from expected_part_contains [OF t] obtain p x y where
      p: "expected_part K C W link = Some p" "p = x @ source_text K C W link @ y"
      by blast
    from map_filter_mem [of link _ "expected_part K C W" p, OF l p(1)] have "p \<in> set ?parts"
      by (simp add: linked_parts_def)
    from join_contains_mem [OF this, of "[newline, newline]"] obtain a c where
      "css = a @ p @ c" unfolding 1 by blast
    with p(2) have "css = (a @ x) @ source_text K C W link @ (y @ c)" by simp
    then show "\<exists>a c. css = a @ source_text K C W link @ c" by blast
  qed
  have 4: "\<forall>st \<in> set (querySelectorAll sel_style ?doc). \<exists>a c. css = a @ textContent st @ c"
  proof
    fix st assume "st \<in> set (querySelectorAll sel_style ?doc)"
    then have "textContent st \<in> set ?parts" by (simp add: inline_parts_def)
    from join_contains_mem [OF this, of "[newline, newline]"]
    show "\<exists>a c. css = a @ textContent st @ c" unfolding 1 .
  qed
  from 1 2 3 4 load_html_world [OF a(1)] show ?thesis by blast
qed

theorem aggregate_order_witness:
  "loadHtmlAndCss mixed_collab sample_config empty_world = Inr (''<html>'', mixed_css) \<and>
   linked_parts mixed_collab sample_config empty_world mixed_page =
     [''a{}'', ''@media print{'' @ [newline] @ ''b{}'' @ [newline] @ ''}''] \<and>
   inline_parts mixed_page = [''s1{}'', ''s2{}''] \<and>
   mixed_css = join [newline, newline]
                 (linked_parts mixed_collab sample_config empty_world mixed_page @ inline_parts mixed_page) \<and>
   (\<exists>a c. mixed_css = a @ ''b{}'' @ c) \<and>
   files local_world ''/site/b.css'' = Some ''b{}'' \<and>
   source_text local_collab local_config local_world (link_to ''b.css'') = ''b{}'' \<and>
   loadHtmlAndCss local_collab local_config local_world = Inr (''<html>'', ''b{}'') \<and>
   files local_world (path_resolve local_collab ''/site/index.html'') = Some ''<html>''"
proof -
  have h: "loadHtmlAndCss mixed_collab sample_config empty_world = Inr (''<html>'', mixed_css)"
    by code_simp
  have p: "parse_html mixed_collab ''<html>'' = mixed_page"
    by (simp add: mixed_collab_def sample_collab_def)
  have l: "linked_parts mixed_collab sample_config empty_world mixed_page =
     [''a{}'', ''@media print{'' @ [newline] @ ''b{}'' @ [newline] @ ''}'']"
    by code_simp
  have i: "inline_parts mixed_page = [''s1{}'', ''s2{}'']"
    by code_simp
  have m: "media_link ''https://cdn.example.com/b.css'' ''print'' \<in>
             set (querySelectorAll sel_stylesheet mixed_page)"
    by code_simp
  have t: "source_text mixed_collab sample_config empty_world
             (media_link ''https://cdn.example.com/b.css'' ''print'') = ''b{}''"
    by code_simp
  have h2: "loadHtmlAndCss local_collab local_config local_world = Inr (''<html>'', ''b{}'')"
    by code_simp
  have f: "files local_world ''/site/b.css'' = Some ''b{}''"
    by code_simp
  have t2: "source_text local_collab local_config local_world (link_to ''b.css'') = ''b{}''"
    by code_simp
  have ip: "pageUrl local_config = None" "inputPath local_config = Some ''/site/index.html''"
    by (simp_all add: local_config_def)
  from aggregate_order [OF h] have
    "mixed_css = join [newline, newline]
       (linked_parts mixed_collab sample_config empty_world mixed_page @ inline_parts mixed_page)"
    and "\<forall>link \<in> set (querySelectorAll sel_stylesheet mixed_page).
            source_text mixed_collab sample_config empty_world link \<noteq> [] \<longrightarrow>
            (\<exists>a c. mixed_css = a @ source_text mixed_collab sample_config empty_world link @ c)"
    unfolding p by blast+
  moreover from this(2) m t have "\<exists>a c. mixed_css = a @ ''b{}'' @ c" by force
  moreover from aggregate_order [OF h2] ip
  have "files local_world (path_resolve local_collab ''/site/index.html'') = Some ''<html>''"
    by auto
  ultimately show ?thesis using h l i f t2 h2 by blast
qed

text \<open>
  Claim C6. The declared media type of a link is its \<open>media\<close> attribute without the
  white space around it; a link without the attribute, or with an empty or blank one,
  declares none, and \<open>all\<close> in any letter case is the default type. When the
  aggregator returns, a linked stylesheet with text that declares a media type other
  than the default stands in the aggregate, at the place of its link among the parts,
  as \<open>@media\<close>, the type, and its text on lines of their own between braces (for
  \<open>media="print"\<close>: \<open>@media print{\<close>, the text, \<open>}\<close>); a linked stylesheet with
  \<open>media="all"\<close> or with no declared type stands there as its text alone.
\<close>

theorem media_wrapping:
  assumes "loadHtmlAndCss K C W = Inr (html, css)"
    "querySelectorAll sel_stylesheet (parse_html K html) = before @ link # after"
    "source_text K C W link \<noteq> []"
  shows "(\<forall>m. getAttribute link ''media'' = Some m \<and> trim m \<noteq> [] \<and>
              toLowerCase (trim m) \<noteq> ''all'' \<longrightarrow>
            css = join [newline, newline]
                    (List.map_filter (expected_part K C W) before @
                     [''@media '' @ trim m @ ''{'' @ [newline] @ source_text K C W link
                        @ [newline] @ ''}''] @
                     List.map_filter (expected_part K C W) after @
                     inline_parts (parse_html K html))) \<and>
         (getAttribute link ''media'' = None \<or>
          (\<exists>m. getAttribute link ''media'' = Some m \<and>
               (trim m = [] \<or> toLowerCase (trim m) = ''all'')) \<longrightarrow>
            css = join [newline, newline]
                    (List.map_filter (expected_part K C W) before @
                     [source_text K C W link] @
                     List.map_filter (expected_part K C W) after @
                     inline_parts (parse_html K html)))"
proof -
  note a = aggregate_parts(2) [OF assms(1)]
  have parts: "linked_parts K C W (parse_html K html) =
      List.map_filter (expected_part K C W) before @
      (case expected_part K C W link of None \<Rightarrow> [] | Some p \<Rightarrow> [p]) @
      List.map_filter (expected_part K C W) after"
    unfolding linked_parts_def assms(2)
    by (simp add: map_filter_app List.map_filter_simps split: option.splits)
  show ?thesis
    unfolding a parts using assms(3)
    by (auto simp add: expected_part_def media_type_def in_media_block_def trim_Nil)
qed

theorem media_wrapping_witness:
  "mixed_css =
     join [newline, newline]
       ([''a{}''] @ [''@media print{'' @ [newline] @ ''b{}'' @ [newline] @ ''}''] @ [] @
        [''s1{}'', ''s2{}'']) \<and>
   loadHtmlAndCss (sample_collab\<lparr>parse_html := (\<lambda>h. upper_page)\<rparr>) sample_config empty_world =
     Inr (''<html>'', ''a{}'') \<and>
   ''a{}'' = join [newline, newline] ([] @ [''a{}''] @ [] @ []) \<and>
   sample_css = join [newline, newline] ([] @ [''a{}''] @ [''b{}''] @ [])"
proof -
  have h1: "loadHtmlAndCss mixed_collab sample_config empty_world = Inr (''<html>'', mixed_css)"
    by code_simp
  have q1: "querySelectorAll sel_stylesheet (parse_html mixed_collab ''<html>'') =
      [link_to ''https://cdn.example.com/a.css'', link_to ''data:text/css,x{}''] @
      media_link ''https://cdn.example.com/b.css'' ''print'' # []"
    by code_simp
  have t1: "source_text mixed_collab sample_config empty_world
             (media_link ''https://cdn.example.com/b.css'' ''print'') = ''b{}''"
    by code_simp
  have m1: "getAttribute (media_link ''https://cdn.example.com/b.css'' ''print'') ''media'' = Some ''print''"
    "trim ''print'' = ''print''" "toLowerCase ''print'' \<noteq> ''all''"
    by code_simp+
  have b1: "List.map_filter (expected_part mixed_collab sample_config empty_world)
      [link_to ''https://cdn.example.com/a.css'', link_to ''data:text/css,x{}''] = [''a{}'']"
    "List.map_filter (expected_part mixed_collab sample_config empty_world) [] = []"
    "inline_parts (parse_html mixed_collab ''<html>'') = [''s1{}'', ''s2{}'']"
    by code_simp+
  have n1: "source_text mixed_collab sample_config empty_world
             (media_link ''https://cdn.example.com/b.css'' ''print'') \<noteq> []"
    by (simp add: t1)
  from media_wrapping [OF h1 q1 n1] m1
  have 1: "mixed_css =
     join [newline, newline]
       ([''a{}''] @ [''@media print{'' @ [newline] @ ''b{}'' @ [newline] @ ''}''] @ [] @
        [''s1{}'', ''s2{}''])"
    unfolding b1 t1 by simp
  have h2: "loadHtmlAndCss (sample_collab\<lparr>parse_html := (\<lambda>h. upper_page)\<rparr>) sample_config empty_world =
     Inr (''<html>'', ''a{}'')"
    by code_simp
  have q2: "querySelectorAll sel_stylesheet
      (parse_html (sample_collab\<lparr>parse_html := (\<lambda>h. upper_page)\<rparr>) ''<html>'') =
      [] @ media_link ''https://cdn.example.com/a.css'' ''ALL'' # []"
    by code_simp
  have t2: "source_text (sample_collab\<lparr>parse_html := (\<lambda>h. upper_page)\<rparr>) sample_config empty_world
             (media_link ''https://cdn.example.com/a.css'' ''ALL'') = ''a{}''"
    by code_simp
  have m2: "getAttribute (media_link ''https://cdn.example.com/a.css'' ''ALL'') ''media'' = Some ''ALL''"
    "toLowerCase (trim ''ALL'') = ''all''"
    by code_simp+
  have b2: "List.map_filter (expected_part (sample_collab\<lparr>parse_html := (\<lambda>h. upper_page)\<rparr>)
      sample_config empty_world) [] = []"
    "inline_parts (parse_html (sample_collab\<lparr>parse_html := (\<lambda>h. upper_page)\<rparr>) ''<html>'') = []"
    by code_simp+
  have n2: "source_text (sample_collab\<lparr>parse_html := (\<lambda>h. upper_page)\<rparr>) sample_config empty_world
             (media_link ''https://cdn.example.com/a.css'' ''ALL'') \<noteq> []"
    by (simp add: t2)
  from media_wrapping [OF h2 q2 n2] m2
  have 2: "''a{}'' = join [newline, newline] ([] @ [''a{}''] @ [] @ [])"
    unfolding b2 t2 by blast
  have h3: "loadHtmlAndCss sample_collab sample_config empty_world = Inr (''<html>'', sample_css)"
    by code_simp
  have q3: "querySelectorAll sel_stylesheet (parse_html sample_collab ''<html>'') =
      [] @ link_to ''https://cdn.example.com/a.css'' # [link_to ''https://cdn.example.com/b.css'']"
    by code_simp
  have t3: "source_text sample_collab sample_config empty_world
             (link_to ''https://cdn.example.com/a.css'') = ''a{}''"
    by code_simp
  have m3: "getAttribute (link_to ''https://cdn.example.com/a.css'') ''media'' = None"
    by code_simp
  have b3: "List.map_filter (expected_part sample_collab sample_config empty_world) [] = []"
    "List.map_filter (expected_part sample_collab sample_config empty_world)
       [link_to ''https://cdn.example.com/b.css''] = [''b{}'']"
    "inline_parts (parse_html sample_collab ''<html>'') = []"
    by code_simp+
  have n3: "source_text sample_collab sample_config empty_world
             (link_to ''https://cdn.example.com/a.css'') \<noteq> []"
    by (simp add: t3)
  from media_wrapping [OF h3 q3 n3] m3
  have 3: "sample_css = join [newline, newline] ([] @ [''a{}''] @ [''b{}''] @ [])"
    unfolding b3 t3 by blast
  from 1 2 3 h2 show ?thesis by blast
qed

section \<open>Visual guard and exit codes\<close>

lemma snap_console: "snap K vp f W = (r, W') \<Longrightarrow> console W' = console W"
  by (auto simp add: snap_def writeFile_def split: option.splits sum.splits if_splits)

lemma snap_files:
  "snap K vp f W = (r, W') \<Longrightarrow> k \<noteq> path_resolve K (pngPath f vp) \<Longrightarrow> files W' k = files W k"
  by (auto simp add: snap_def writeFile_def split: option.splits sum.splits if_splits)

lemma snap_Inr:
  "snap K vp f W = (Inr p, W') \<Longrightarrow> p = pngPath f vp \<and> rendered W' = rendered W @ [Snap vp f]"
  by (auto simp add: snap_def writeFile_def split: option.splits sum.splits if_splits)

lemma writeFile_Inr:
  "writeFile K W p c = Inr W' \<Longrightarrow>
     console W' = console W \<and> rendered W' = rendered W \<and>
     files W' = (files W)(path_resolve K p \<mapsto> c)"
  by (auto simp add: writeFile_def split: if_splits)

lemma compare_viewports_step:
  assumes "compare_viewports K t1 t2 (vp # vps) worst W = (r, W')"
  shows "(\<exists>e W1. r = Inl e \<and> W' = W1 \<and> console W1 = console W \<and>
            (\<forall>k. k \<notin> set (vp_files K t1 t2 vp) \<longrightarrow> files W1 k = files W k)) \<or>
         (\<exists>n W3. compare_viewports K t1 t2 vps (max worst n) W3 = (r, W') \<and>
            console W3 = console W \<and>
            rendered W3 = rendered W @ [Snap vp t1, Snap vp t2, Compared vp n] \<and>
            (\<forall>k. k \<notin> set (vp_files K t1 t2 vp) \<longrightarrow> files W3 k = files W k))"
proof -
  obtain r1 W1 where s1: "snap K vp t1 W = (r1, W1)" by fastforce
  note c1 = snap_console [OF s1] and f1 = snap_files [OF s1]
  show ?thesis
  proof (cases r1)
    case (Inl e)
    with assms s1 have "r = Inl e" "W' = W1" by simp_all
    with c1 f1 show ?thesis by (simp add: vp_files_def)
  next
    case (Inr o_png)
    note r1 = Inr
    obtain r2 W2 where s2: "snap K vp t2 W1 = (r2, W2)" by fastforce
    note c2 = snap_console [OF s2] and f2 = snap_files [OF s2]
    have c12: "console W2 = console W" using c1 c2 by simp
    have f12: "files W2 k = files W k" if "k \<notin> set (vp_files K t1 t2 vp)" for k
      using that f1 [of k] f2 [of k] by (simp add: vp_files_def)
    show ?thesis
    proof (cases r2)
      case (Inl e)
      with assms s1 s2 r1 have "r = Inl e" "W' = W2" by simp_all
      with c12 f12 show ?thesis by blast
    next
      case (Inr s_png)
      note r2 = Inr
      have rend: "rendered W2 = rendered W @ [Snap vp t1, Snap vp t2]"
        using snap_Inr [of K vp t1 W o_png W1] snap_Inr [of K vp t2 W1 s_png W2] s1 s2 r1 r2
        by simp
      let ?rest = "(case readFile K W2 o_png of
                  Inl e \<Rightarrow> (Inl e, W2)
                | Inr origPng \<Rightarrow>
                    (case readFile K W2 s_png of
                       Inl e \<Rightarrow> (Inl e, W2)
                     | Inr slimPng \<Rightarrow>
                         (case pixelmatch K origPng slimPng of
                            None \<Rightarrow> (Inl (DiffError vp), W2)
                          | Some (n, diff) \<Rightarrow>
                              (case writeFile K W2 (diffPath vp) diff of
                                 Inl e \<Rightarrow> (Inl e, W2)
                               | Inr W3 \<Rightarrow>
                                   compare_viewports K t1 t2 vps (max worst n)
                                     (W3\<lparr>rendered := rendered W3 @ [Compared vp n]\<rparr>)))))"
      have eq: "?rest = (r, W')" using assms s1 s2 r1 r2 by simp
      show ?thesis
      proof (cases "\<exists>e. r = Inl e \<and> W' = W2")
        case True
        with c12 f12 show ?thesis by blast
      next
        case False
        with eq obtain origPng slimPng n diff W3 where
          w: "writeFile K W2 (diffPath vp) diff = Inr W3" and
          rec: "compare_viewports K t1 t2 vps (max worst n)
                  (W3\<lparr>rendered := rendered W3 @ [Compared vp n]\<rparr>) = (r, W')"
          by (auto split: sum.splits option.splits prod.splits)
        note w3 = writeFile_Inr [OF w]
        have "files (W3\<lparr>rendered := rendered W3 @ [Compared vp n]\<rparr>) k = files W k"
          if "k \<notin> set (vp_files K t1 t2 vp)" for k
          using that f12 [of k] w3 by (simp add: vp_files_def)
        moreover have "console (W3\<lparr>rendered := rendered W3 @ [Compared vp n]\<rparr>) = console W"
          using w3 c12 by simp
        moreover have "rendered (W3\<lparr>rendered := rendered W3 @ [Compared vp n]\<rparr>) =
            rendered W @ [Snap vp t1, Snap vp t2, Compared vp n]"
          using w3 rend by simp
        ultimately show ?thesis using rec by blast
      qed
    qed
  qed
qed


lemma viewport_files_Cons:
  "set (viewport_files K t1 t2 (vp # vps)) =
     set (vp_files K t1 t2 vp) \<union> set (viewport_files K t1 t2 vps)"
  by (auto simp add: viewport_files_def)

lemma compare_viewports_frame:
  "compare_viewports K t1 t2 vps worst W = (r, W') \<Longrightarrow>
     console W' = console W \<and>
     (\<forall>k. k \<notin> set (viewport_files K t1 t2 vps) \<longrightarrow> files W' k = files W k)"
proof (induction vps arbitrary: worst W)
  case Nil
  then show ?case by simp
next
  case (Cons vp vps)
  from compare_viewports_step [OF Cons.prems] show ?case
  proof (elim disjE exE conjE)
    fix e W1
    assume "r = Inl e" "W' = W1" "console W1 = console W"
      "\<forall>k. k \<notin> set (vp_files K t1 t2 vp) \<longrightarrow> files W1 k = files W k"
    then show ?thesis by (simp add: viewport_files_Cons)
  next
    fix n W3
    assume rec: "compare_viewports K t1 t2 vps (max worst n) W3 = (r, W')"
      and c: "console W3 = console W"
      and f: "\<forall>k. k \<notin> set (vp_files K t1 t2 vp) \<longrightarrow> files W3 k = files W k"
    from Cons.IH [OF rec] c f show ?thesis by (simp add: viewport_files_Cons)
  qed
qed

lemma compare_viewports_Inr:
  "compare_viewports K t1 t2 vps worst W = (Inr w, W') \<Longrightarrow>
     \<exists>ns. length ns = length vps \<and>
          rendered W' = rendered W @ guard_trace t1 t2 vps ns \<and>
          w = fold max ns worst"
proof (induction vps arbitrary: worst W)
  case Nil
  then show ?case by (simp add: guard_trace_def)
next
  case (Cons vp vps)
  from compare_viewports_step [OF Cons.prems] obtain n W3 where
    rec: "compare_viewports K t1 t2 vps (max worst n) W3 = (Inr w, W')" and
    r: "rendered W3 = rendered W @ [Snap vp t1, Snap vp t2, Compared vp n]"
    by auto
  from Cons.IH [OF rec] obtain ns where
    ns: "length ns = length vps" "rendered W' = rendered W3 @ guard_trace t1 t2 vps ns"
      "w = fold max ns (max worst n)"
    by blast
  have "length (n # ns) = length (vp # vps)" using ns by simp
  moreover have "rendered W' = rendered W @ guard_trace t1 t2 (vp # vps) (n # ns)"
    using ns r by (simp add: guard_trace_def)
  moreover have "w = fold max (n # ns) worst" using ns by (simp add: max.commute)
  ultimately show ?case by blast
qed

lemma fold_max_Max: "fold max ns (w :: nat) = Max (set (w # ns))"
  by (simp only: Max.set_eq_fold)

lemma visualGuard_frame:
  assumes "visualGuard K orig slim csv W = (r, W')"
  shows "\<forall>k. k \<notin> set (guard_files K (csv_list csv)) \<longrightarrow> files W' k = files W k"
proof (cases "deps_available K \<and> launch_ok K")
  case False
  with assms show ?thesis by (auto simp add: visualGuard_def say_def split: if_splits)
next
  case True
  show ?thesis
  proof (cases "writeFile K W (tmp_orig K) orig")
    case (Inl e)
    with assms True show ?thesis by (simp add: visualGuard_def)
  next
    case (Inr W1)
    note w1 = writeFile_Inr [OF Inr]
    show ?thesis
    proof (cases "writeFile K W1 (tmp_slim K) slim")
      case (Inl e)
      with assms True Inr w1 show ?thesis by (simp add: visualGuard_def guard_files_def)
    next
      case (Inr W2)
      note w2 = writeFile_Inr [OF Inr]
      obtain r3 W3 where l: "compare_viewports K (tmp_orig K) (tmp_slim K) (csv_list csv) 0 W2 = (r3, W3)"
        by fastforce
      from assms True \<open>writeFile K W (tmp_orig K) orig = Inr W1\<close> Inr l have "W' = W3"
        by (auto simp add: visualGuard_def split: sum.splits)
      with compare_viewports_frame [OF l] w1 w2 show ?thesis
        by (simp add: guard_files_def)
    qed
  qed
qed

lemma visualGuard_decision:
  assumes "deps_available K" "visualGuard K orig slim csv W = (Inr ok, W')"
  shows "\<exists>ns. length ns = length (csv_list csv) \<and>
          rendered W' = rendered W @ guard_trace (tmp_orig K) (tmp_slim K) (csv_list csv) ns \<and>
          ok = (Max (set (0 # ns)) \<le> 500) \<and> console W' = console W"
proof -
  from assms obtain W1 W2 worst where
    w1: "writeFile K W (tmp_orig K) orig = Inr W1" and
    w2: "writeFile K W1 (tmp_slim K) slim = Inr W2" and
    l: "compare_viewports K (tmp_orig K) (tmp_slim K) (csv_list csv) 0 W2 = (Inr worst, W')" and
    ok: "ok = (worst \<le> 500)"
    by (auto simp add: visualGuard_def split: if_splits sum.splits prod.splits)
  from compare_viewports_Inr [OF l] obtain ns where
    ns: "length ns = length (csv_list csv)"
      "rendered W' = rendered W2 @ guard_trace (tmp_orig K) (tmp_slim K) (csv_list csv) ns"
      "worst = fold max ns 0"
    by blast
  from compare_viewports_frame [OF l] writeFile_Inr [OF w1] writeFile_Inr [OF w2]
  have "console W' = console W" "rendered W2 = rendered W" by simp_all
  with ns ok show ?thesis by (auto simp add: fold_max_Max)
qed


lemma load_needs_input:
  "loadHtmlAndCss K C W = Inr x \<Longrightarrow> \<not> (inputPath C = None \<and> pageUrl C = None)"
  by (auto simp add: loadHtmlAndCss_def load_html_def split: sum.splits option.splits)

lemma main_after_guard:
  assumes "loadHtmlAndCss K C W = Inr (html, css)"
    "purgeCss K html css (safelistExtra C) = Inr purged"
    "minifyCss K purged = Inr minimized"
    "guard_stage K C html (serializeWithStyle K C html minimized) W = (Inr ok, W1)"
  shows "main K C W =
           (if \<not> ok then (2, say VisualDiffTooLarge W1)
            else (case writeFile K W1 (outPath C) (serializeWithStyle K C html minimized) of
                    Inl e \<Rightarrow> fail e W1
                  | Inr W2 \<Rightarrow> (0, say (Wrote (outPath C)) W2)))"
proof -
  have ni: "(inputPath C = None \<and> pageUrl C = None) = False"
    using load_needs_input [OF assms(1)] by blast
  show ?thesis
    unfolding main_def ni
    by (simp only: if_False assms sum.case prod.case)
qed

lemma main_exit_2:
  assumes "main K C W = (2, W')"
  shows "\<exists>html slim W1. doVisual C \<and>
           visualGuard K html slim (vpsArg C) W = (Inr False, W1) \<and>
           W' = say VisualDiffTooLarge W1"
proof (cases "inputPath C = None \<and> pageUrl C = None")
  case True
  with assms show ?thesis by (simp add: main_def)
next
  case ni: False
  show ?thesis
  proof (cases "loadHtmlAndCss K C W")
    case (Inl e)
    with assms ni show ?thesis by (simp add: main_def fail_def)
  next
    case (Inr hc)
    obtain html css where hc: "hc = (html, css)" by (cases hc)
    note l = Inr [unfolded hc]
    show ?thesis
    proof (cases "purgeCss K html css (safelistExtra C)")
      case (Inl e)
      with assms ni l show ?thesis by (simp add: main_def fail_def)
    next
      case (Inr purged)
      note p = Inr
      show ?thesis
      proof (cases "minifyCss K purged")
        case (Inl e)
        with assms ni l p show ?thesis by (simp add: main_def fail_def)
      next
        case (Inr minimized)
        note m = Inr
        obtain r W1 where
          g: "guard_stage K C html (serializeWithStyle K C html minimized) W = (r, W1)"
          by fastforce
        show ?thesis
        proof (cases r)
          case (Inl e)
          with assms ni l p m g show ?thesis by (simp add: main_def fail_def)
        next
          case (Inr ok)
          note mm = main_after_guard [OF l p m g [unfolded Inr]]
          show ?thesis
          proof (cases ok)
            case True
            with assms mm show ?thesis
              by (simp add: fail_def split: sum.splits)
          next
            case False
            with assms mm have w: "W' = say VisualDiffTooLarge W1" by simp
            from g Inr False have "doVisual C"
              "visualGuard K html (serializeWithStyle K C html minimized) (vpsArg C) W = (Inr False, W1)"
              by (auto simp add: guard_stage_def split: if_splits)
            with w show ?thesis by blast
          qed
        qed
      qed
    qed
  qed
qed

lemma guard_reject_needs_deps:
  "visualGuard K orig slim csv W = (Inr False, W1) \<Longrightarrow> deps_available K"
  by (auto simp add: visualGuard_def split: if_splits)

lemma snap_reads:
  assumes "snap K vp f W = (Inr p, W')" "files W (path_resolve K f) = Some html"
  shows "\<exists>png. screenshot K vp html = Some png \<and> p = pngPath f vp \<and>
           files W' = (files W)(path_resolve K (pngPath f vp) \<mapsto> png) \<and>
           rendered W' = rendered W @ [Snap vp f] \<and> console W' = console W"
  using assms
  by (auto simp add: snap_def writeFile_def split: option.splits sum.splits if_splits)

lemma compare_viewports_step_count:
  assumes c: "compare_viewports K t1 t2 (vp # vps) worst W = (Inr w, W')"
    and f1: "files W (path_resolve K t1) = Some orig"
    and f2: "files W (path_resolve K t2) = Some slim"
    and d1: "path_resolve K t2 \<noteq> path_resolve K (pngPath t1 vp)"
    and d2: "path_resolve K (pngPath t1 vp) \<noteq> path_resolve K (pngPath t2 vp)"
  shows "\<exists>n W3. compare_viewports K t1 t2 vps (max worst n) W3 = (Inr w, W') \<and>
           rendered W3 = rendered W @ [Snap vp t1, Snap vp t2, Compared vp n] \<and>
           expected_count K orig slim vp = Some n \<and>
           (\<forall>k. k \<notin> set (vp_files K t1 t2 vp) \<longrightarrow> files W3 k = files W k)"
proof -
  obtain r1 W1 where s1: "snap K vp t1 W = (r1, W1)" by fastforce
  from c s1 obtain o_png where r1: "r1 = Inr o_png" by (cases r1) auto
  from snap_reads [OF s1 [unfolded r1] f1] obtain png1 where
    p1: "screenshot K vp orig = Some png1" "o_png = pngPath t1 vp"
      "files W1 = (files W)(path_resolve K (pngPath t1 vp) \<mapsto> png1)"
      "rendered W1 = rendered W @ [Snap vp t1]"
    by blast
  obtain r2 W2 where s2: "snap K vp t2 W1 = (r2, W2)" by fastforce
  from c s1 r1 s2 obtain s_png where r2: "r2 = Inr s_png" by (cases r2) auto
  have f2': "files W1 (path_resolve K t2) = Some slim"
    using f2 d1 by (simp add: p1(3))
  from snap_reads [OF s2 [unfolded r2] f2'] obtain png2 where
    p2: "screenshot K vp slim = Some png2" "s_png = pngPath t2 vp"
      "files W2 = (files W1)(path_resolve K (pngPath t2 vp) \<mapsto> png2)"
      "rendered W2 = rendered W1 @ [Snap vp t2]"
    by blast
  have ro: "readFile K W2 o_png = Inr png1"
    using d2 by (simp add: readFile_def p1 p2)
  have rs: "readFile K W2 s_png = Inr png2"
    by (simp add: readFile_def p2)
  have rest: "(case pixelmatch K png1 png2 of
                 None \<Rightarrow> (Inl (DiffError vp), W2)
               | Some (n, diff) \<Rightarrow>
                   (case writeFile K W2 (diffPath vp) diff of
                      Inl e \<Rightarrow> (Inl e, W2)
                    | Inr W3 \<Rightarrow>
                        compare_viewports K t1 t2 vps (max worst n)
                          (W3\<lparr>rendered := rendered W3 @ [Compared vp n]\<rparr>))) = (Inr w, W')"
    using c by (simp add: s1 r1 s2 r2 ro rs)
  then obtain n diff where pm: "pixelmatch K png1 png2 = Some (n, diff)"
    by (cases "pixelmatch K png1 png2") auto
  with rest obtain W3 where
    w: "writeFile K W2 (diffPath vp) diff = Inr W3" and
    rec: "compare_viewports K t1 t2 vps (max worst n)
            (W3\<lparr>rendered := rendered W3 @ [Compared vp n]\<rparr>) = (Inr w, W')"
    by (cases "writeFile K W2 (diffPath vp) diff") auto
  from w have w3: "files W3 = (files W2)(path_resolve K (diffPath vp) \<mapsto> diff)"
    "rendered W3 = rendered W2"
    by (auto simp add: writeFile_def split: if_splits)
  have "expected_count K orig slim vp = Some n"
    by (simp add: expected_count_def p1(1) p2(1) pm)
  moreover have "rendered (W3\<lparr>rendered := rendered W3 @ [Compared vp n]\<rparr>) =
      rendered W @ [Snap vp t1, Snap vp t2, Compared vp n]"
    by (simp add: w3 p2 p1)
  moreover have "\<forall>k. k \<notin> set (vp_files K t1 t2 vp) \<longrightarrow>
      files (W3\<lparr>rendered := rendered W3 @ [Compared vp n]\<rparr>) k = files W k"
    by (simp add: w3 p2 p1 vp_files_def)
  ultimately show ?thesis using rec by blast
qed

lemma compare_viewports_counts:
  assumes "compare_viewports K t1 t2 vps worst W = (Inr w, W')"
    "files W (path_resolve K t1) = Some orig" "files W (path_resolve K t2) = Some slim"
    "path_resolve K t1 \<notin> set (viewport_files K t1 t2 vps)"
    "path_resolve K t2 \<notin> set (viewport_files K t1 t2 vps)"
    "\<forall>vp \<in> set vps. path_resolve K (pngPath t1 vp) \<noteq> path_resolve K (pngPath t2 vp)"
  shows "\<exists>ns. length ns = length vps \<and>
          rendered W' = rendered W @ guard_trace t1 t2 vps ns \<and>
          w = fold max ns worst \<and>
          map Some ns = map (expected_count K orig slim) vps"
  using assms
proof (induction vps arbitrary: worst W)
  case Nil
  then show ?case by (simp add: guard_trace_def)
next
  case (Cons vp vps)
  have d1: "path_resolve K t2 \<noteq> path_resolve K (pngPath t1 vp)"
    using Cons.prems(5) by (auto simp add: viewport_files_def vp_files_def)
  have d2: "path_resolve K (pngPath t1 vp) \<noteq> path_resolve K (pngPath t2 vp)"
    using Cons.prems(6) by simp
  from compare_viewports_step_count [OF Cons.prems(1) Cons.prems(2) Cons.prems(3) d1 d2]
  obtain n W3 where
    rec: "compare_viewports K t1 t2 vps (max worst n) W3 = (Inr w, W')" and
    r: "rendered W3 = rendered W @ [Snap vp t1, Snap vp t2, Compared vp n]" and
    e: "expected_count K orig slim vp = Some n" and
    f: "\<forall>k. k \<notin> set (vp_files K t1 t2 vp) \<longrightarrow> files W3 k = files W k"
    by blast
  have k1: "path_resolve K t1 \<notin> set (vp_files K t1 t2 vp)"
    "path_resolve K t1 \<notin> set (viewport_files K t1 t2 vps)"
    using Cons.prems(4) by (auto simp add: viewport_files_def)
  have k2: "path_resolve K t2 \<notin> set (vp_files K t1 t2 vp)"
    "path_resolve K t2 \<notin> set (viewport_files K t1 t2 vps)"
    using Cons.prems(5) by (auto simp add: viewport_files_def)
  have g1: "files W3 (path_resolve K t1) = Some orig" using f k1(1) Cons.prems(2) by simp
  have g2: "files W3 (path_resolve K t2) = Some slim" using f k2(1) Cons.prems(3) by simp
  have g6: "\<forall>vp \<in> set vps. path_resolve K (pngPath t1 vp) \<noteq> path_resolve K (pngPath t2 vp)"
    using Cons.prems(6) by simp
  from Cons.IH [OF rec g1 g2 k1(2) k2(2) g6] obtain ns where
    ns: "length ns = length vps" "rendered W' = rendered W3 @ guard_trace t1 t2 vps ns"
      "w = fold max ns (max worst n)" "map Some ns = map (expected_count K orig slim) vps"
    by blast
  have "length (n # ns) = length (vp # vps)" using ns by simp
  moreover have "rendered W' = rendered W @ guard_trace t1 t2 (vp # vps) (n # ns)"
    using ns r by (simp add: guard_trace_def)
  moreover have "w = fold max (n # ns) worst" using ns by (simp add: max.commute)
  moreover have "map Some (n # ns) = map (expected_count K orig slim) (vp # vps)"
    using ns e by simp
  ultimately show ?case by blast
qed

lemma visualGuard_counts:
  assumes "deps_available K" "visualGuard K orig slim csv W = (Inr ok, W')"
    "guard_files_apart K (csv_list csv)"
  shows "\<exists>ns. length ns = length (csv_list csv) \<and>
          rendered W' = rendered W @ guard_trace (tmp_orig K) (tmp_slim K) (csv_list csv) ns \<and>
          ok = (Max (set (0 # ns)) \<le> 500) \<and>
          map Some ns = map (expected_count K orig slim) (csv_list csv)"
proof -
  from assms(1,2) obtain W1 W2 worst where
    w1: "writeFile K W (tmp_orig K) orig = Inr W1" and
    w2: "writeFile K W1 (tmp_slim K) slim = Inr W2" and
    l: "compare_viewports K (tmp_orig K) (tmp_slim K) (csv_list csv) 0 W2 = (Inr worst, W')" and
    ok: "ok = (worst \<le> 500)"
    by (auto simp add: visualGuard_def split: if_splits sum.splits prod.splits)
  note a = writeFile_Inr [OF w1] and b = writeFile_Inr [OF w2]
  from assms(3) have ap:
    "path_resolve K (tmp_orig K) \<noteq> path_resolve K (tmp_slim K)"
    "path_resolve K (tmp_orig K) \<notin> set (viewport_files K (tmp_orig K) (tmp_slim K) (csv_list csv))"
    "path_resolve K (tmp_slim K) \<notin> set (viewport_files K (tmp_orig K) (tmp_slim K) (csv_list csv))"
    "\<forall>vp \<in> set (csv_list csv). path_resolve K (pngPath (tmp_orig K) vp) \<noteq>
                        path_resolve K (pngPath (tmp_slim K) vp)"
    by (simp_all add: guard_files_apart_def)
  have f1: "files W2 (path_resolve K (tmp_orig K)) = Some orig" using a b ap(1) by simp
  have f2: "files W2 (path_resolve K (tmp_slim K)) = Some slim" using b by simp
  from compare_viewports_counts [OF l f1 f2 ap(2) ap(3) ap(4)] obtain ns where
    ns: "length ns = length (csv_list csv)"
      "rendered W' = rendered W2 @ guard_trace (tmp_orig K) (tmp_slim K) (csv_list csv) ns"
      "worst = fold max ns 0"
      "map Some ns = map (expected_count K orig slim) (csv_list csv)"
    by blast
  have "rendered W2 = rendered W" using a b by simp
  with ns ok show ?thesis by (auto simp add: fold_max_Max)
qed

text \<open>
  Claim C8. In a run with the guard enabled and its tooling loaded, in which the stages
  before the guard succeed and the guard runs to its decision: the guard has rendered
  both documents at every configured viewport and compared them, in the order of the
  list, before it decides; with its working files being different files, the count it
  holds for a viewport is the count the comparison gives for the capture of the
  original document and the capture of the slimmed one at that viewport; it accepts
  exactly when the largest of the counts (0 when there is no viewport) is at most 500;
  the process exits with code 2 exactly when that maximum is above 500; otherwise it
  exits with 0 when the output can be written and with the generic code 1 when it
  cannot.
\<close>

theorem visual_guard_budget:
  assumes "doVisual C" "deps_available K"
    "loadHtmlAndCss K C W = Inr (html, css)"
    "purgeCss K html css (safelistExtra C) = Inr purged"
    "minifyCss K purged = Inr minimized"
    "visualGuard K html (serializeWithStyle K C html minimized) (vpsArg C) W = (Inr ok, W1)"
  shows "\<exists>ns. length ns = length (csv_list (vpsArg C)) \<and>
          rendered W1 =
            rendered W @ guard_trace (tmp_orig K) (tmp_slim K) (csv_list (vpsArg C)) ns \<and>
          (guard_files_apart K (csv_list (vpsArg C)) \<longrightarrow>
             map Some ns =
               map (expected_count K html (serializeWithStyle K C html minimized))
                 (csv_list (vpsArg C))) \<and>
          ok = (Max (set (0 # ns)) \<le> 500) \<and>
          (fst (main K C W) = 2) = (500 < Max (set (0 # ns))) \<and>
          (fst (main K C W) = 0) =
            (Max (set (0 # ns)) \<le> 500 \<and> can_write K (path_resolve K (outPath C))) \<and>
          (fst (main K C W) = 1) =
            (Max (set (0 # ns)) \<le> 500 \<and> \<not> can_write K (path_resolve K (outPath C)))"
proof -
  have "\<exists>ns. length ns = length (csv_list (vpsArg C)) \<and>
          rendered W1 =
            rendered W @ guard_trace (tmp_orig K) (tmp_slim K) (csv_list (vpsArg C)) ns \<and>
          (guard_files_apart K (csv_list (vpsArg C)) \<longrightarrow>
             map Some ns =
               map (expected_count K html (serializeWithStyle K C html minimized))
                 (csv_list (vpsArg C))) \<and>
          ok = (Max (set (0 # ns)) \<le> 500)"
  proof (cases "guard_files_apart K (csv_list (vpsArg C))")
    case True
    from visualGuard_counts [OF assms(2) assms(6) True] show ?thesis by blast
  next
    case False
    with visualGuard_decision [OF assms(2) assms(6)] show ?thesis by blast
  qed
  then obtain ns where
    ns: "length ns = length (csv_list (vpsArg C))"
      "rendered W1 = rendered W @ guard_trace (tmp_orig K) (tmp_slim K) (csv_list (vpsArg C)) ns"
      "guard_files_apart K (csv_list (vpsArg C)) \<longrightarrow>
             map Some ns =
               map (expected_count K html (serializeWithStyle K C html minimized))
                 (csv_list (vpsArg C))"
      "ok = (Max (set (0 # ns)) \<le> 500)"
    by blast
  have g: "guard_stage K C html (serializeWithStyle K C html minimized) W = (Inr ok, W1)"
    using assms(1) assms(6) by (simp add: guard_stage_def)
  note m = main_after_guard [OF assms(3) assms(4) assms(5) g]
  have m2: "(fst (main K C W) = 2) = (\<not> ok)"
    unfolding m by (simp add: fail_def writeFile_def)
  have m0: "(fst (main K C W) = 0) = (ok \<and> can_write K (path_resolve K (outPath C)))"
    unfolding m by (simp add: fail_def writeFile_def)
  have m1: "(fst (main K C W) = 1) = (ok \<and> \<not> can_write K (path_resolve K (outPath C)))"
    unfolding m by (simp add: fail_def writeFile_def)
  have e2: "(fst (main K C W) = 2) = (500 < Max (set (0 # ns)))"
    unfolding m2 ns(4) by (rule not_le)
  have e0: "(fst (main K C W) = 0) =
            (Max (set (0 # ns)) \<le> 500 \<and> can_write K (path_resolve K (outPath C)))"
    unfolding m0 ns(4) by (rule refl)
  have e1: "(fst (main K C W) = 1) =
            (Max (set (0 # ns)) \<le> 500 \<and> \<not> can_write K (path_resolve K (outPath C)))"
    unfolding m1 ns(4) by (rule refl)
  show ?thesis
    by (intro exI [of _ ns] conjI) (rule ns e2 e0 e1)+
qed

theorem visual_guard_budget_witness:
  "fst (main sample_collab sample_config empty_world) = 2 \<and>
   fst (main sample_collab (sample_config\<lparr>vpsArg := ''1440x900''\<rparr>) empty_world) = 0 \<and>
   rendered (snd (main sample_collab sample_config empty_world)) =
     guard_trace (tmp_orig sample_collab) (tmp_slim sample_collab) [''1440x900'', ''390x844''] [20, 812] \<and>
   (\<exists>ns. length ns = length (csv_list (vpsArg sample_config)) \<and>
      rendered (snd (visualGuard sample_collab ''<html>''
                  (serializeWithStyle sample_collab sample_config ''<html>'' sample_css)
                  (vpsArg sample_config) empty_world)) =
        rendered empty_world @
        guard_trace (tmp_orig sample_collab) (tmp_slim sample_collab)
          (csv_list (vpsArg sample_config)) ns \<and>
      guard_files_apart sample_collab (csv_list (vpsArg sample_config)) \<and>
      map Some ns =
        map (expected_count sample_collab ''<html>''
               (serializeWithStyle sample_collab sample_config ''<html>'' sample_css))
          (csv_list (vpsArg sample_config)) \<and>
      map (expected_count sample_collab ''<html>''
             (serializeWithStyle sample_collab sample_config ''<html>'' sample_css))
        (csv_list (vpsArg sample_config)) = [Some 20, Some 812] \<and>
      (fst (main sample_collab sample_config empty_world) = 2) = (500 < Max (set (0 # ns))))"
proof -
  have d: "doVisual sample_config" "deps_available sample_collab"
    by (simp_all add: sample_config_def sample_collab_def)
  have l: "loadHtmlAndCss sample_collab sample_config empty_world = Inr (''<html>'', sample_css)"
    by code_simp
  have p: "purgeCss sample_collab ''<html>'' sample_css (safelistExtra sample_config) = Inr sample_css"
    by code_simp
  have m: "minifyCss sample_collab sample_css = Inr sample_css"
    by (simp add: minifyCss_def sample_collab_def)
  have "fst (visualGuard sample_collab ''<html>''
               (serializeWithStyle sample_collab sample_config ''<html>'' sample_css)
               (vpsArg sample_config) empty_world) = Inr False"
    by code_simp
  then have g: "visualGuard sample_collab ''<html>''
               (serializeWithStyle sample_collab sample_config ''<html>'' sample_css)
               (vpsArg sample_config) empty_world =
             (Inr False, snd (visualGuard sample_collab ''<html>''
               (serializeWithStyle sample_collab sample_config ''<html>'' sample_css)
               (vpsArg sample_config) empty_world))"
    by (simp add: prod_eq_iff)
  have e1: "fst (main sample_collab sample_config empty_world) = 2"
    by code_simp
  have e2: "fst (main sample_collab (sample_config\<lparr>vpsArg := ''1440x900''\<rparr>) empty_world) = 0"
    by code_simp
  have e3: "rendered (snd (main sample_collab sample_config empty_world)) =
     guard_trace (tmp_orig sample_collab) (tmp_slim sample_collab) [''1440x900'', ''390x844''] [20, 812]"
    by code_simp
  have ap: "guard_files_apart sample_collab (csv_list (vpsArg sample_config))"
    by code_simp
  have ec: "map (expected_count sample_collab ''<html>''
             (serializeWithStyle sample_collab sample_config ''<html>'' sample_css))
        (csv_list (vpsArg sample_config)) = [Some 20, Some 812]"
    by code_simp
  from visual_guard_budget [OF d l p m g] obtain ns where
    ns: "length ns = length (csv_list (vpsArg sample_config))"
      "rendered (snd (visualGuard sample_collab ''<html>''
                  (serializeWithStyle sample_collab sample_config ''<html>'' sample_css)
                  (vpsArg sample_config) empty_world)) =
        rendered empty_world @
        guard_trace (tmp_orig sample_collab) (tmp_slim sample_collab)
          (csv_list (vpsArg sample_config)) ns"
      "guard_files_apart sample_collab (csv_list (vpsArg sample_config)) \<longrightarrow>
        map Some ns =
          map (expected_count sample_collab ''<html>''
                 (serializeWithStyle sample_collab sample_config ''<html>'' sample_css))
            (csv_list (vpsArg sample_config))"
      "(fst (main sample_collab sample_config empty_world) = 2) = (500 < Max (set (0 # ns)))"
    by blast
  from ns(3) ap have c: "map Some ns =
          map (expected_count sample_collab ''<html>''
                 (serializeWithStyle sample_collab sample_config ''<html>'' sample_css))
            (csv_list (vpsArg sample_config))" ..
  show ?thesis
    by (intro conjI exI [of _ ns]) (rule e1 e2 e3 ns(1) ns(2) ns(4) ap c ec)+
qed

text \<open>
  Claim C9. When the guard is enabled but puppeteer, pixelmatch or pngjs cannot be
  loaded, the guard renders nothing, writes one warning and returns \<open>true\<close>; a run whose
  other stages succeed and whose output can be written then writes the slimmed document
  to the output path and ends with exit code 0.
\<close>

theorem missing_tooling_degrades_to_accept:
  assumes "\<not> deps_available K" "doVisual C"
    "loadHtmlAndCss K C W = Inr (html, css)"
    "purgeCss K html css (safelistExtra C) = Inr purged"
    "minifyCss K purged = Inr minimized"
    "can_write K (path_resolve K (outPath C))"
  shows "visualGuard K html (serializeWithStyle K C html minimized) (vpsArg C) W =
           (Inr True, say VisualDepsMissing W) \<and>
         fst (main K C W) = 0 \<and>
         console (snd (main K C W)) = console W @ [VisualDepsMissing, Wrote (outPath C)] \<and>
         rendered (snd (main K C W)) = rendered W \<and>
         files (snd (main K C W)) =
           (files W)(path_resolve K (outPath C) \<mapsto> serializeWithStyle K C html minimized)"
proof -
  have v: "visualGuard K html (serializeWithStyle K C html minimized) (vpsArg C) W =
           (Inr True, say VisualDepsMissing W)"
    using assms(1) by (simp add: visualGuard_def)
  then have g: "guard_stage K C html (serializeWithStyle K C html minimized) W =
           (Inr True, say VisualDepsMissing W)"
    using assms(2) by (simp add: guard_stage_def)
  note m = main_after_guard [OF assms(3) assms(4) assms(5) g]
  show ?thesis
    using v assms(6) unfolding m by (simp add: writeFile_def say_def)
qed

theorem missing_tooling_degrades_to_accept_witness:
  "visualGuard no_deps_collab ''<html>''
     (serializeWithStyle no_deps_collab sample_config ''<html>'' sample_css)
     (vpsArg sample_config) empty_world = (Inr True, say VisualDepsMissing empty_world) \<and>
   fst (main no_deps_collab sample_config empty_world) = 0 \<and>
   console (snd (main no_deps_collab sample_config empty_world)) =
     console empty_world @ [VisualDepsMissing, Wrote (outPath sample_config)]"
proof -
  have d: "\<not> deps_available no_deps_collab" "doVisual sample_config"
    by (simp_all add: sample_config_def sample_collab_def no_deps_collab_def)
  have l: "loadHtmlAndCss no_deps_collab sample_config empty_world = Inr (''<html>'', sample_css)"
    by code_simp
  have p: "purgeCss no_deps_collab ''<html>'' sample_css (safelistExtra sample_config) = Inr sample_css"
    by code_simp
  have m: "minifyCss no_deps_collab sample_css = Inr sample_css"
    by (simp add: minifyCss_def sample_collab_def no_deps_collab_def)
  have w: "can_write no_deps_collab (path_resolve no_deps_collab (outPath sample_config))"
    by (simp add: sample_collab_def no_deps_collab_def)
  from missing_tooling_degrades_to_accept [OF d l p m w] show ?thesis by blast
qed

text \<open>
  Claim C10, amended. A run that ends with exit code 2 had the guard enabled, wrote the
  line of the failed visual check and no line of a written output, and changed no file
  other than the guard's own working files (its two temporary documents, the captures
  and the diff images of the viewports). So the file at the output path is unchanged
  whenever the output path is not one of those working files.
\<close>

theorem output_untouched_on_visual_failure:
  assumes "main K C W = (2, W')"
  shows "doVisual C \<and>
         console W' = console W @ [VisualDiffTooLarge] \<and>
         (\<forall>k. k \<notin> set (guard_files K (csv_list (vpsArg C))) \<longrightarrow> files W' k = files W k) \<and>
         (path_resolve K (outPath C) \<notin> set (guard_files K (csv_list (vpsArg C))) \<longrightarrow>
            files W' (path_resolve K (outPath C)) = files W (path_resolve K (outPath C)))"
proof -
  from main_exit_2 [OF assms] obtain html slim W1 where
    d: "doVisual C" and
    v: "visualGuard K html slim (vpsArg C) W = (Inr False, W1)" and
    w: "W' = say VisualDiffTooLarge W1"
    by blast
  from visualGuard_decision [OF guard_reject_needs_deps [OF v] v]
  have c: "console W1 = console W" by blast
  from visualGuard_frame [OF v]
  have f: "\<forall>k. k \<notin> set (guard_files K (csv_list (vpsArg C))) \<longrightarrow> files W1 k = files W k" .
  from d c f w show ?thesis by (simp add: say_def)
qed


theorem output_untouched_on_visual_failure_witness:
  "fst (main sample_collab sample_config empty_world) = 2 \<and>
   console (snd (main sample_collab sample_config empty_world)) =
     console empty_world @ [VisualDiffTooLarge] \<and>
   files (snd (main sample_collab sample_config empty_world))
     (path_resolve sample_collab (outPath sample_config)) =
   files empty_world (path_resolve sample_collab (outPath sample_config))"
proof -
  have e: "fst (main sample_collab sample_config empty_world) = 2"
    by code_simp
  then have h: "main sample_collab sample_config empty_world =
      (2, snd (main sample_collab sample_config empty_world))"
    by (simp add: prod_eq_iff)
  have n: "path_resolve sample_collab (outPath sample_config) \<notin>
      set (guard_files sample_collab (csv_list (vpsArg sample_config)))"
    by code_simp
  from output_untouched_on_visual_failure [OF h] e n show ?thesis by blast
qed

text \<open>
  Claim C10, as stated, fails: with \<open>--out .slim__tmp.html\<close> the output path is the
  guard's own temporary copy of the slimmed document. The guard rejects, the run ends
  with exit code 2, and the file at the output path, absent before the run, holds the
  slimmed document.
\<close>

theorem output_overwritten_counterexample:
  "doVisual alias_config \<and>
   fst (main sample_collab alias_config empty_world) = 2 \<and>
   files empty_world (path_resolve sample_collab (outPath alias_config)) = None \<and>
   files (snd (main sample_collab alias_config empty_world))
     (path_resolve sample_collab (outPath alias_config)) =
     Some (serializeWithStyle sample_collab alias_config ''<html>'' sample_css)"
  by code_simp

section \<open>Unreachable stylesheets\<close>

text \<open>
  The two branches of the loop differ. A stylesheet read from disk that cannot be read
  is skipped and the loop goes on with the next link; a stylesheet fetched over the
  network whose request fails ends the loop with that error.
\<close>

lemma unreadable_local_stylesheet_example:
  "files local_world ''/site/a.css'' = None \<and>
   loadHtmlAndCss local_collab local_config local_world = Inr (''<html>'', ''b{}'') \<and>
   fst (main local_collab local_config local_world) = 0"
  by code_simp

lemma unreadable_local_stylesheet_skipped:
  assumes "inputPath C = Some ip"
    "absUrl K (link_href link) (baseUrl C) = Inr (Some url)" "url \<noteq> []" "\<not> is_http_scheme url"
    "files W (path_resolve K (path_resolve2 K (path_dirname K ip)
        (takeWhile (\<lambda>c. c \<noteq> CHR ''?'') (link_href link)))) = None"
  shows "gather_linked K C W (link # rest) cssParts = gather_linked K C W rest cssParts"
  using assms
  by (simp add: link_part_def link_source_def load_css_def read_css_def readFile_def)

lemma unreachable_network_stylesheet_throws:
  assumes "absUrl K (link_href link) (baseUrl C) = Inr (Some url)" "url \<noteq> []"
    "is_http_scheme url \<or> inputPath C = None"
    "fetch_text K url = None"
  shows "gather_linked K C W (link # rest) cssParts = Inl (NetworkError url)"
  using assms
  by (auto simp add: link_part_def link_source_def load_css_def fetch_css_def split: option.splits)

text \<open>
  Claim C1, on the code. The page at \<open>https://example.com/landing\<close> links two
  stylesheets on a CDN; the request for the first one fails, the second one is
  reachable. The aggregator does not skip the first and continue: it ends with the
  network error, and the run ends with exit code 1, the failure line on the console and
  no output file.
\<close>

theorem unreachable_network_stylesheet_aborts:
  "pageUrl sample_config = Some ''https://example.com/landing'' \<and>
   querySelectorAll sel_stylesheet (parse_html down_collab ''<html>'') =
     [link_to ''https://cdn.example.com/a.css'', link_to ''https://cdn.example.com/b.css''] \<and>
   fetch_text down_collab ''https://cdn.example.com/a.css'' = None \<and>
   fetch_text down_collab ''https://cdn.example.com/b.css'' = Some ''b{}'' \<and>
   loadHtmlAndCss down_collab sample_config empty_world =
     Inl (NetworkError ''https://cdn.example.com/a.css'') \<and>
   fst (main down_collab sample_config empty_world) = 1 \<and>
   console (snd (main down_collab sample_config empty_world)) =
     [Failed (NetworkError ''https://cdn.example.com/a.css'')] \<and>
   files (snd (main down_collab sample_config empty_world))
     (path_resolve down_collab (outPath sample_config)) = None"
  by code_simp

section \<open>Assembly\<close>

lemma rel_in_capitals_is_selected:
  "querySelectorAll sel_stylesheet upper_rel_page =
     [Element ''link'' [(''rel'', ''STYLESHEET''), (''href'', ''https://cdn.example.com/a.css'')] []] \<and>
   querySelectorAll sel_hint upper_rel_page =
     [Element ''link'' [(''rel'', ''Preload''), (''href'', ''https://cdn.example.com/f.woff2'')] []] \<and>
   loadHtmlAndCss (sample_collab\<lparr>parse_html := (\<lambda>h. upper_rel_page)\<rparr>) sample_config empty_world =
     Inr (''<html>'', ''a{}'') \<and>
   doc_head (assemble sample_config upper_rel_page ''p{}'') =
     [meta_charset, meta_viewport, style_block ''p{}'']"
  by code_simp

lemma shallowD: "shallow sel \<Longrightarrow> sel (Element t as cs) = sel (Element t as cs')"
  unfolding shallow_def by blast

lemma shallow_selectors:
  "shallow sel_stylesheet" "shallow sel_font_link" "shallow sel_other_link"
  "shallow sel_script" "shallow sel_hint" "shallow sel_script_or_hint" "shallow sel_style"
  "shallow sel_meta_charset" "shallow sel_meta_viewport"
  by (simp_all add: shallow_def sel_stylesheet_def sel_font_link_def sel_other_link_def
      sel_script_def sel_hint_def sel_script_or_hint_def sel_style_def sel_meta_charset_def
      sel_meta_viewport_def rel_has_def rel_is_def href_has_def)

lemma elements_in_append: "elements_in (xs @ ys) = elements_in xs @ elements_in ys"
  by (simp add: elements_in_def)

lemma elements_in_Cons: "elements_in (n # ns) = elements_of n @ elements_in ns"
  by (simp add: elements_in_def)

lemma elements_in_concat:
  "set (elements_in (concat xss)) = (\<Union>xs \<in> set xss. set (elements_in xs))"
  by (induction xss) (simp_all add: elements_in_append, simp add: elements_in_def)

lemma remove_in_gone:
  "shallow sel \<Longrightarrow> e \<in> set (elements_in (remove_in sel n)) \<Longrightarrow> \<not> sel e"
proof (induction n arbitrary: e)
  case (Element t as cs)
  show ?case
  proof (cases "sel (Element t as cs)")
    case True
    with Element.prems show ?thesis by (simp add: elements_in_def)
  next
    case False
    with Element.prems(2) have
      "e = Element t as (concat (map (remove_in sel) cs)) \<or>
       e \<in> set (elements_in (concat (map (remove_in sel) cs)))"
      by (simp add: elements_in_Cons) (simp add: elements_in_def)
    then show ?thesis
    proof
      assume "e = Element t as (concat (map (remove_in sel) cs))"
      with False shallowD [OF Element.prems(1), of t as cs] show ?thesis by simp
    next
      assume "e \<in> set (elements_in (concat (map (remove_in sel) cs)))"
      then obtain c where "c \<in> set cs" "e \<in> set (elements_in (remove_in sel c))"
        by (auto simp add: elements_in_concat)
      with Element.IH Element.prems(1) show ?thesis by blast
    qed
  qed
next
  case (TextNode s)
  then show ?case by (simp add: elements_in_def)
qed

lemma remove_in_keeps:
  "shallow sel2 \<Longrightarrow> \<forall>x \<in> set (elements_of n). \<not> sel2 x \<Longrightarrow>
   e \<in> set (elements_in (remove_in sel n)) \<Longrightarrow> \<not> sel2 e"
proof (induction n arbitrary: e)
  case (Element t as cs)
  show ?case
  proof (cases "sel (Element t as cs)")
    case True
    with Element.prems show ?thesis by (simp add: elements_in_def)
  next
    case False
    with Element.prems(3) have
      "e = Element t as (concat (map (remove_in sel) cs)) \<or>
       e \<in> set (elements_in (concat (map (remove_in sel) cs)))"
      by (simp add: elements_in_Cons) (simp add: elements_in_def)
    then show ?thesis
    proof
      assume "e = Element t as (concat (map (remove_in sel) cs))"
      moreover from Element.prems(2) have "\<not> sel2 (Element t as cs)" by simp
      ultimately show ?thesis using shallowD [OF Element.prems(1), of t as cs] by simp
    next
      assume "e \<in> set (elements_in (concat (map (remove_in sel) cs)))"
      then obtain c where c: "c \<in> set cs" "e \<in> set (elements_in (remove_in sel c))"
        by (auto simp add: elements_in_concat)
      from Element.prems(2) c(1) have "\<forall>x \<in> set (elements_of c). \<not> sel2 x" by auto
      with Element.IH [OF c(1) Element.prems(1) _ c(2)] show ?thesis by blast
    qed
  qed
next
  case (TextNode s)
  then show ?case by (simp add: elements_in_def)
qed

lemma query_empty: "(querySelectorAll sel doc = []) = (\<forall>e \<in> set (doc_elements doc). \<not> sel e)"
  by (simp add: querySelectorAll_def doc_elements_def filter_empty_conv)

lemma doc_elements_remove_all:
  "e \<in> set (doc_elements (remove_all sel doc)) \<Longrightarrow>
     \<exists>n \<in> set (doc_head doc @ doc_body doc). e \<in> set (elements_in (remove_in sel n))"
  by (auto simp add: doc_elements_def remove_all_def elements_in_append elements_in_concat)

lemma remove_all_gone: "shallow sel \<Longrightarrow> querySelectorAll sel (remove_all sel doc) = []"
  unfolding query_empty using doc_elements_remove_all remove_in_gone by blast

lemma remove_all_keeps:
  assumes "shallow sel2" "querySelectorAll sel2 doc = []"
  shows "querySelectorAll sel2 (remove_all sel doc) = []"
  unfolding query_empty
proof
  fix e assume "e \<in> set (doc_elements (remove_all sel doc))"
  from doc_elements_remove_all [OF this] obtain n where
    n: "n \<in> set (doc_head doc @ doc_body doc)" "e \<in> set (elements_in (remove_in sel n))"
    by blast
  from assms(2) n(1) have "\<forall>x \<in> set (elements_of n). \<not> sel2 x"
    unfolding query_empty doc_elements_def elements_in_def by auto
  from remove_in_keeps [OF assms(1) this n(2)] show "\<not> sel2 e" .
qed

lemma query_prepend:
  "(querySelectorAll sel (prepend_head n doc) = []) =
     (filter sel (elements_of n) = [] \<and> querySelectorAll sel doc = [])"
  by (auto simp add: querySelectorAll_def prepend_head_def elements_in_append elements_in_Cons
      filter_empty_conv)

lemma query_append:
  "(querySelectorAll sel (append_head n doc) = []) =
     (filter sel (elements_of n) = [] \<and> querySelectorAll sel doc = [])"
  by (auto simp add: querySelectorAll_def append_head_def elements_in_append elements_in_Cons
      elements_in_def filter_empty_conv)

lemma added_nodes:
  "elements_of meta_charset = [meta_charset]" "elements_of meta_viewport = [meta_viewport]"
  "elements_of (style_element css) = [style_element css]"
  by (simp_all add: meta_charset_def meta_viewport_def style_element_def)

lemma added_not_selected:
  "\<not> sel_script_or_hint meta_charset" "\<not> sel_script_or_hint meta_viewport"
  "\<not> sel_script_or_hint (style_element css)"
  "\<not> sel_stylesheet meta_charset" "\<not> sel_stylesheet meta_viewport"
  "\<not> sel_stylesheet (style_element css)"
  by (simp_all add: meta_charset_def meta_viewport_def style_element_def sel_script_or_hint_def
      sel_script_def sel_hint_def sel_stylesheet_def)

lemma assemble_keeps_absent:
  assumes "shallow sel" "querySelectorAll sel doc = []"
    "\<not> sel meta_charset" "\<not> sel meta_viewport" "\<not> sel (style_element css)"
  shows "querySelectorAll sel (assemble C doc css) = []"
proof -
  define doc1 where "doc1 = (if \<not> keepFontLinks C then remove_all sel_font_link doc else doc)"
  define doc2 where "doc2 = remove_all sel_other_link doc1"
  define doc3 where "doc3 = remove_all sel_script_or_hint doc2"
  define doc4 where "doc4 = (if querySelectorAll sel_meta_charset doc3 = []
                  then prepend_head meta_charset doc3 else doc3)"
  define doc5 where "doc5 = (if querySelectorAll sel_meta_viewport doc4 = []
                  then append_head meta_viewport doc4 else doc4)"
  have out: "assemble C doc css = append_head (style_element css) doc5"
    by (simp add: assemble_def Let_def doc1_def doc2_def doc3_def doc4_def doc5_def)
  have "querySelectorAll sel doc1 = []"
    using assms(1,2) by (simp add: doc1_def remove_all_keeps)
  then have "querySelectorAll sel doc2 = []"
    unfolding doc2_def by (rule remove_all_keeps [OF assms(1)])
  then have "querySelectorAll sel doc3 = []"
    unfolding doc3_def by (rule remove_all_keeps [OF assms(1)])
  then have "querySelectorAll sel doc4 = []"
    using assms(3) by (simp add: doc4_def query_prepend added_nodes)
  then have "querySelectorAll sel doc5 = []"
    using assms(4) by (simp add: doc5_def query_append added_nodes)
  then show ?thesis
    unfolding out using assms(5) by (simp add: query_append added_nodes)
qed

lemma assemble_removes:
  assumes "shallow sel" "\<not> sel meta_charset" "\<not> sel meta_viewport" "\<not> sel (style_element css)"
    "sel = sel_other_link \<or> sel = sel_script_or_hint \<or> (sel = sel_font_link \<and> \<not> keepFontLinks C)"
  shows "querySelectorAll sel (assemble C doc css) = []"
proof -
  define doc1 where "doc1 = (if \<not> keepFontLinks C then remove_all sel_font_link doc else doc)"
  define doc2 where "doc2 = remove_all sel_other_link doc1"
  define doc3 where "doc3 = remove_all sel_script_or_hint doc2"
  define doc4 where "doc4 = (if querySelectorAll sel_meta_charset doc3 = []
                  then prepend_head meta_charset doc3 else doc3)"
  define doc5 where "doc5 = (if querySelectorAll sel_meta_viewport doc4 = []
                  then append_head meta_viewport doc4 else doc4)"
  have out: "assemble C doc css = append_head (style_element css) doc5"
    by (simp add: assemble_def Let_def doc1_def doc2_def doc3_def doc4_def doc5_def)
  have "querySelectorAll sel doc3 = []"
  proof -
    consider (o) "sel = sel_other_link" | (s) "sel = sel_script_or_hint"
      | (f) "sel = sel_font_link" "\<not> keepFontLinks C"
      using assms(5) by blast
    then show ?thesis
    proof cases
      case o
      have "querySelectorAll sel doc2 = []"
        unfolding doc2_def o by (rule remove_all_gone [OF shallow_selectors(3)])
      then show ?thesis unfolding doc3_def by (rule remove_all_keeps [OF assms(1)])
    next
      case s
      show ?thesis unfolding doc3_def s by (rule remove_all_gone [OF shallow_selectors(6)])
    next
      case f
      have "querySelectorAll sel doc1 = []"
        using f by (simp add: doc1_def remove_all_gone shallow_selectors)
      then have "querySelectorAll sel doc2 = []"
        unfolding doc2_def by (rule remove_all_keeps [OF assms(1)])
      then show ?thesis unfolding doc3_def by (rule remove_all_keeps [OF assms(1)])
    qed
  qed
  then have "querySelectorAll sel doc4 = []"
    using assms(2) by (simp add: doc4_def query_prepend added_nodes)
  then have "querySelectorAll sel doc5 = []"
    using assms(3) by (simp add: doc5_def query_append added_nodes)
  then show ?thesis
    unfolding out using assms(4) by (simp add: query_append added_nodes)
qed

lemma assemble_meta:
  "querySelectorAll sel_meta_charset (assemble C doc css) \<noteq> [] \<and>
   querySelectorAll sel_meta_viewport (assemble C doc css) \<noteq> [] \<and>
   doc_head (assemble C doc css) \<noteq> [] \<and>
   last (doc_head (assemble C doc css)) = style_element css"
proof -
  define doc3 where "doc3 = remove_all sel_script_or_hint (remove_all sel_other_link
      (if \<not> keepFontLinks C then remove_all sel_font_link doc else doc))"
  define doc4 where "doc4 = (if querySelectorAll sel_meta_charset doc3 = []
                  then prepend_head meta_charset doc3 else doc3)"
  define doc5 where "doc5 = (if querySelectorAll sel_meta_viewport doc4 = []
                  then append_head meta_viewport doc4 else doc4)"
  have out: "assemble C doc css = append_head (style_element css) doc5"
    by (simp add: assemble_def Let_def doc3_def doc4_def doc5_def)
  have mc: "sel_meta_charset meta_charset" and mv: "sel_meta_viewport meta_viewport"
    by (simp_all add: sel_meta_charset_def sel_meta_viewport_def meta_charset_def meta_viewport_def)
  have c4: "querySelectorAll sel_meta_charset doc4 \<noteq> []"
    using mc by (simp add: doc4_def query_prepend added_nodes)
  then have c5: "querySelectorAll sel_meta_charset doc5 \<noteq> []"
    by (simp add: doc5_def query_append)
  have v5: "querySelectorAll sel_meta_viewport doc5 \<noteq> []"
    using mv by (simp add: doc5_def query_append added_nodes)
  have "querySelectorAll sel_meta_charset (assemble C doc css) \<noteq> []"
    unfolding out using c5 by (simp add: query_append)
  moreover have "querySelectorAll sel_meta_viewport (assemble C doc css) \<noteq> []"
    unfolding out using v5 by (simp add: query_append)
  moreover have "doc_head (assemble C doc css) \<noteq> []"
    "last (doc_head (assemble C doc css)) = style_element css"
    unfolding out by (simp_all add: append_head_def)
  ultimately show ?thesis by simp
qed

lemma sel_script_or_hint_nil:
  "querySelectorAll sel_script_or_hint d = [] \<Longrightarrow>
     querySelectorAll sel_script d = [] \<and> querySelectorAll sel_hint d = []"
  by (auto simp add: querySelectorAll_def filter_empty_conv sel_script_or_hint_def)

lemma stylesheet_split:
  "querySelectorAll sel_font_link d = [] \<Longrightarrow> querySelectorAll sel_other_link d = [] \<Longrightarrow>
     querySelectorAll sel_stylesheet d = []"
  by (auto simp add: querySelectorAll_def filter_empty_conv sel_font_link_def sel_other_link_def)

lemma assemble_invariants:
  "querySelectorAll sel_script (assemble C doc css) = [] \<and>
   querySelectorAll sel_hint (assemble C doc css) = [] \<and>
   querySelectorAll sel_other_link (assemble C doc css) = [] \<and>
   (\<not> keepFontLinks C \<longrightarrow> querySelectorAll sel_stylesheet (assemble C doc css) = []) \<and>
   querySelectorAll sel_meta_charset (assemble C doc css) \<noteq> [] \<and>
   querySelectorAll sel_meta_viewport (assemble C doc css) \<noteq> [] \<and>
   doc_head (assemble C doc css) \<noteq> [] \<and>
   last (doc_head (assemble C doc css)) = style_element css"
proof -
  have no: "\<not> sel_other_link meta_charset" "\<not> sel_other_link meta_viewport"
      "\<not> sel_other_link (style_element css)"
      "\<not> sel_font_link meta_charset" "\<not> sel_font_link meta_viewport"
      "\<not> sel_font_link (style_element css)"
    using added_not_selected by (simp_all add: sel_other_link_def sel_font_link_def)
  have a: "querySelectorAll sel_script_or_hint (assemble C doc css) = []"
    by (rule assemble_removes [OF shallow_selectors(6) added_not_selected(1-3)]) simp
  have b: "querySelectorAll sel_other_link (assemble C doc css) = []"
    by (rule assemble_removes [OF shallow_selectors(3) no(1-3)]) simp
  have c: "querySelectorAll sel_font_link (assemble C doc css) = []" if "\<not> keepFontLinks C"
    by (rule assemble_removes [OF shallow_selectors(2) no(4-6)]) (simp add: that)
  from sel_script_or_hint_nil [OF a] b stylesheet_split [OF c b] assemble_meta [of C doc css]
  show ?thesis by blast
qed

text \<open>
  Claim C2, on the code. The input has one style block in its head and one script. The
  script is gone from the output and both meta tags are there, but the head of the
  output holds two style blocks: the one of the input, untouched, and the appended one.
  The text of the input's block is also part of what the aggregator hands on, so it
  reaches the output twice.
\<close>

theorem input_style_blocks_stay:
  "length (filter sel_style (doc_head styled_page)) = 1 \<and>
   doc_head (assemble sample_config styled_page ''p{}'') =
     [meta_charset, style_block ''body{margin:0}'', meta_viewport, style_block ''p{}''] \<and>
   doc_body (assemble sample_config styled_page ''p{}'') = [] \<and>
   length (filter sel_style (doc_head (assemble sample_config styled_page ''p{}''))) = 2 \<and>
   loadHtmlAndCss (sample_collab\<lparr>parse_html := (\<lambda>h. styled_page)\<rparr>) sample_config empty_world =
     Inr (''<html>'', ''body{margin:0}'')"
  by code_simp

text \<open>
  Claim C4, on the code. With no \<open>--keep-font-links\<close> among the arguments the constant
  \<open>keepFontLinks\<close> is false, and the assembler removes the link to
  \<open>fonts.googleapis.com\<close> together with the other stylesheet link. The link is kept only
  when the flag is given.
\<close>

theorem font_links_removed_by_default:
  "parseArgs plain_argv ''keep-font-links'' = None \<and>
   keepFontLinks_of plain_argv = False \<and>
   querySelectorAll sel_font_link font_page =
     [link_to ''https://fonts.googleapis.com/css?family=Roboto''] \<and>
   querySelectorAll sel_stylesheet
     (assemble (sample_config\<lparr>keepFontLinks := keepFontLinks_of plain_argv\<rparr>) font_page ''p{}'') = [] \<and>
   keepFontLinks_of (plain_argv @ [''--keep-font-links'']) = True \<and>
   querySelectorAll sel_stylesheet
     (assemble (sample_config\<lparr>keepFontLinks := keepFontLinks_of (plain_argv @ [''--keep-font-links''])\<rparr>)
        font_page ''p{}'') =
     [link_to ''https://fonts.googleapis.com/css?family=Roboto'']"
  by code_simp

end
